theory Spec2Isabelle
  imports Complex_Main "HOL-Library.Word"
begin

section \<open>Wire format of the native messaging host\<close>

text \<open>
  \<^verbatim>\<open>packages/native-messaging/src/host.ts\<close> talks to the browser over stdin and stdout.
  A frame is a 4-byte little-endian length followed by that many bytes of UTF-8 JSON.
  A \<^verbatim>\<open>Buffer\<close> is a list of bytes. \<^verbatim>\<open>JSON.stringify\<close> and \<^verbatim>\<open>JSON.parse\<close> belong to the
  JavaScript runtime, not to the repository: they are parameters of the functions below
  (\<open>stringify\<close> gives the UTF-8 bytes of the JSON text or the value it throws, \<open>parse\<close>
  gives \<open>None\<close> where \<^verbatim>\<open>JSON.parse(buf.toString('utf8'))\<close> throws).
\<close>

type_synonym byte = "8 word"

text \<open>What a JavaScript \<^verbatim>\<open>throw\<close> carries: an \<^verbatim>\<open>Error\<close> object with its message, or any other value.\<close>

datatype thrown = ErrorObj string | OtherValue

text \<open>\<^verbatim>\<open>buf.readUInt32LE(0)\<close> on a buffer of at least four bytes.\<close>

definition readUInt32LE :: "byte list \<Rightarrow> nat" where
  "readUInt32LE b =
     unat (b ! 0) + 256 * unat (b ! 1) + 65536 * unat (b ! 2) + 16777216 * unat (b ! 3)"

text \<open>The four bytes of an unsigned 32-bit value, least significant first.\<close>

definition uint32le :: "nat \<Rightarrow> byte list" where
  "uint32le n =
     [of_nat (n mod 256), of_nat (n div 256 mod 256),
      of_nat (n div 65536 mod 256), of_nat (n div 16777216 mod 256)]"

text \<open>Decimal digits of a number, as a template literal prints it.\<close>

function decimal :: "nat \<Rightarrow> string" where
  "decimal n =
     (if n < 10 then [''0123456789'' ! n] else decimal (n div 10) @ [''0123456789'' ! (n mod 10)])"
  by pat_completeness auto
termination
  by (relation "measure (\<lambda>n. n)") auto

declare decimal.simps [simp del]

text \<open>
  \<^verbatim>\<open>addNumericalSeparator\<close> of Node (\<^verbatim>\<open>lib/internal/errors.js\<close>) on the digits of a number that is
  not negative: an underscore in front of every group of three digits, counted from the right.
\<close>

function separated :: "string \<Rightarrow> string" where
  "separated val =
     (if length val < 4 then val
      else separated (take (length val - 3) val) @ ''_'' @ drop (length val - 3) val)"
  by pat_completeness auto
termination
  by (relation "measure length") auto

declare separated.simps [simp del]

text \<open>
  \<^verbatim>\<open>Buffer.alloc(4)\<close> followed by \<^verbatim>\<open>writeUInt32LE(n, 0)\<close>. When the value does not fit 32 bits, Node
  throws the \<^verbatim>\<open>RangeError\<close> of \<^verbatim>\<open>ERR_OUT_OF_RANGE\<close>, whose message names the bounds and the value
  received, the latter with separators when it is above \<open>2 ^ 32\<close>.
\<close>

definition writeUInt32LE :: "nat \<Rightarrow> thrown + byte list" where
  "writeUInt32LE n =
     (if n < 2 ^ 32 then Inr (uint32le n)
      else Inl (ErrorObj
             (''The value of \"value\" is out of range. It must be >= 0 and <= 4294967295. Received ''
              @ (if 2 ^ 32 < n then separated (decimal n) else decimal n))))"

text \<open>
  \<^verbatim>\<open>sendMessage\<close> (host.ts, lines 132-143). The result is what reaches stdout: the length header
  and then the payload, or the value thrown before anything was written.
\<close>

definition sendMessage :: "('a \<Rightarrow> thrown + byte list) \<Rightarrow> 'a \<Rightarrow> thrown + byte list" where
  "sendMessage stringify message =
     (case stringify message of
        Inl e \<Rightarrow> Inl e
      | Inr messageStr \<Rightarrow>
          (case writeUInt32LE (length messageStr) of
             Inl e \<Rightarrow> Inl e
           | Inr lengthBuffer \<Rightarrow> Inr (lengthBuffer @ messageStr)))"

section \<open>The stream assembler of the host\<close>

text \<open>
  The three variables that \<^verbatim>\<open>setupMessageListener\<close> (host.ts, lines 18-57) closes over.
\<close>

record assembler =
  messageLength :: nat
  messageBuffer :: "byte list"
  expectingLength :: bool

definition initial :: assembler where
  "initial = \<lparr>messageLength = 0, messageBuffer = [], expectingLength = True\<rparr>"

text \<open>
  What the listener does with a complete payload: it calls \<^verbatim>\<open>handleMessage\<close> with the parsed
  message, or \<^verbatim>\<open>sendError\<close> when parsing throws. \<^verbatim>\<open>handleMessage\<close> is \<^verbatim>\<open>async\<close>, so it never
  throws into the \<^verbatim>\<open>catch\<close> of the listener. The listener works for any type of messages; the
  host gives the parsed value the type \<^verbatim>\<open>NativeMessage\<close>.
\<close>

datatype 'm action = HandleMessage 'm | SendError string string

definition on_payload :: "(byte list \<Rightarrow> 'm option) \<Rightarrow> byte list \<Rightarrow> 'm action" where
  "on_payload parse messageData =
     (case parse messageData of
        Some message \<Rightarrow> HandleMessage message
      | None \<Rightarrow> SendError ''Invalid message format'' ''unknown'')"

text \<open>The first \<^verbatim>\<open>if\<close> of the loop body (lines 27-32).\<close>

definition read_length :: "assembler \<Rightarrow> assembler" where
  "read_length s =
     (if expectingLength s \<and> 4 \<le> length (messageBuffer s)
      then s\<lparr>messageLength := readUInt32LE (messageBuffer s),
             messageBuffer := drop 4 (messageBuffer s),
             expectingLength := False\<rparr>
      else s)"

text \<open>The state after a complete payload has been cut off the buffer (lines 37-39).\<close>

definition consume :: "assembler \<Rightarrow> assembler" where
  "consume s =
     s\<lparr>messageBuffer := drop (messageLength s) (messageBuffer s),
       expectingLength := True,
       messageLength := 0\<rparr>"

text \<open>The \<^verbatim>\<open>while (true)\<close> loop (lines 26-51); it returns the state at the \<^verbatim>\<open>break\<close>.\<close>

function on_data_loop ::
  "(byte list \<Rightarrow> 'm option) \<Rightarrow> assembler \<Rightarrow> assembler \<times> 'm action list" where
  "on_data_loop parse s =
     (if \<not> expectingLength (read_length s)
         \<and> messageLength (read_length s) \<le> length (messageBuffer (read_length s))
      then (case on_data_loop parse (consume (read_length s)) of
              (s', acts) \<Rightarrow>
                (s', on_payload parse
                       (take (messageLength (read_length s)) (messageBuffer (read_length s)))
                     # acts))
      else (read_length s, []))"
  by pat_completeness auto
termination
  by (relation "measure (\<lambda>(parse, s).
         2 * length (messageBuffer s) + (if expectingLength s then 0 else 1))")
     (auto simp: read_length_def consume_def split: if_splits)

declare on_data_loop.simps [simp del]

text \<open>\<^verbatim>\<open>messageBuffer = Buffer.concat([messageBuffer, data])\<close> (line 24).\<close>

definition concat_chunk :: "assembler \<Rightarrow> byte list \<Rightarrow> assembler" where
  "concat_chunk s chunk = s\<lparr>messageBuffer := messageBuffer s @ chunk\<rparr>"

text \<open>The listener of \<^verbatim>\<open>stdin.on('data', ...)\<close> (lines 23-52).\<close>

definition on_data ::
  "(byte list \<Rightarrow> 'm option) \<Rightarrow> assembler \<Rightarrow> byte list \<Rightarrow> assembler \<times> 'm action list" where
  "on_data parse s chunk = on_data_loop parse (concat_chunk s chunk)"

text \<open>One call of the listener for each chunk, in order; the actions are collected.\<close>

fun feed ::
  "(byte list \<Rightarrow> 'm option) \<Rightarrow> assembler \<Rightarrow> byte list list \<Rightarrow> assembler \<times> 'm action list" where
  "feed parse s [] = (s, [])"
| "feed parse s (chunk # chunks) =
     (case on_data parse s chunk of
        (s', acts) \<Rightarrow> (case feed parse s' chunks of (s'', acts') \<Rightarrow> (s'', acts @ acts')))"

text \<open>
  The bytes of a frame on the wire, as \<open>sendMessage\<close> lays them out for a payload that fits
  32 bits.
\<close>

definition frame :: "byte list \<Rightarrow> byte list" where
  "frame payload = uint32le (length payload) @ payload"

text \<open>
  The bytes the assembler still holds: the buffer, preceded by the length header when that
  has already been read into \<open>messageLength\<close>.
\<close>

definition unconsumed :: "assembler \<Rightarrow> byte list" where
  "unconsumed s =
     (if expectingLength s then messageBuffer s
      else uint32le (messageLength s) @ messageBuffer s)"

section \<open>Messages\<close>

text \<open>
  The values \<^verbatim>\<open>JSON.parse\<close> can return. \<open>JObject\<close> lists the own properties of the object, each
  key once; a number is the value of the double it was parsed to (finite, and \<open>-0\<close> is \<open>0\<close>).
\<close>

datatype json =
    JNull
  | JBool bool
  | JNumber rat
  | JString string
  | JArray "json list"
  | JObject "(string \<times> json) list"

text \<open>
  \<^verbatim>\<open>NativeMessage\<close> and \<^verbatim>\<open>NativeResponse\<close> of \<^verbatim>\<open>packages/shared/src/types/index.ts\<close>. An optional
  field that is absent is \<open>None\<close>. The fields \<^verbatim>\<open>data\<close>, \<^verbatim>\<open>error\<close> and \<^verbatim>\<open>requestId\<close> of a response are
  \<open>resp_data\<close>, \<open>resp_error\<close> and \<open>resp_requestId\<close> here, to keep them apart from the fields of
  a request. The host casts what \<^verbatim>\<open>JSON.parse\<close> returns to \<^verbatim>\<open>NativeMessage\<close>; a request is a value
  of that type, with a string for its command and for its request id.
\<close>

record NativeMessage =
  command :: string
  data :: "json option"
  requestId :: string

record 'd NativeResponse =
  success :: bool
  resp_data :: "'d option"
  resp_error :: "string option"
  resp_requestId :: string

text \<open>
  \<^verbatim>\<open>handleMessage\<close> is called with whatever \<^verbatim>\<open>JSON.parse\<close> returned, which need not have the shape
  of a \<^verbatim>\<open>NativeMessage\<close>: then \<^verbatim>\<open>message.requestId\<close> is any JSON value or \<^verbatim>\<open>undefined\<close>, and so is the
  \<^verbatim>\<open>requestId\<close> of the object given to \<^verbatim>\<open>sendMessage\<close>. A \<open>reply\<close> is that object; \<open>None\<close> is
  \<^verbatim>\<open>undefined\<close>.
\<close>

record 'd reply =
  reply_success :: bool
  reply_data :: "'d option"
  reply_error :: "string option"
  reply_requestId :: "json option"

section \<open>The command dispatcher of the host\<close>

text \<open>
  The extractor classes (\<^verbatim>\<open>./extractors/chrome-extractor\<close> and its siblings) are imported by
  host.ts and are not part of the sources at hand: an extractor is taken as the outcome of
  awaiting each of its two methods. A promise is fulfilled, is rejected, or never settles.
\<close>

datatype 'a outcome = Resolves 'a | Rejects thrown | Never

record ('b, 'p) extractor =
  extractBookmarks :: "'b outcome"
  getDatabasePath :: "'p outcome"

record ('b, 'p) host =
  chromeExtractor :: "('b, 'p) extractor"
  firefoxExtractor :: "('b, 'p) extractor"
  safariExtractor :: "('b, 'p) extractor"

text \<open>\<^verbatim>\<open>const v = await promise; ...\<close> inside an \<^verbatim>\<open>async\<close> function.\<close>

fun await :: "'a outcome \<Rightarrow> ('a \<Rightarrow> 'c outcome) \<Rightarrow> 'c outcome" where
  "await (Resolves v) k = k v"
| "await (Rejects e) k = Rejects e"
| "await Never k = Never"

text \<open>The three shapes of \<^verbatim>\<open>result\<close> in \<^verbatim>\<open>handleMessage\<close>.\<close>

datatype ('b, 'p) result =
    Extracted 'b
  | Databases 'p 'p 'p
  | Ping string nat

text \<open>
  \<^verbatim>\<open>String.prototype.toLowerCase\<close>. No string with a character outside ASCII is lowered to
  \<^verbatim>\<open>chrome\<close>, \<^verbatim>\<open>firefox\<close> or \<^verbatim>\<open>safari\<close>, so for the comparisons below it is enough to lower the
  letters A to Z and to leave every other character as it is.
\<close>

definition lower_char :: "char \<Rightarrow> char" where
  "lower_char c =
     (case map_of (zip ''ABCDEFGHIJKLMNOPQRSTUVWXYZ'' ''abcdefghijklmnopqrstuvwxyz'') c of
        Some l \<Rightarrow> l
      | None \<Rightarrow> c)"

definition toLowerCase :: "string \<Rightarrow> string" where
  "toLowerCase s = map lower_char s"

text \<open>
  \<^verbatim>\<open>extractBookmarks\<close> of the host (lines 94-108). The argument is whatever
  \<^verbatim>\<open>message.data?.browser || 'chrome'\<close> evaluated to; calling \<^verbatim>\<open>toLowerCase\<close> on a value that is not a
  string throws a \<^verbatim>\<open>TypeError\<close>.
\<close>

definition host_extractBookmarks :: "('b, 'p) host \<Rightarrow> json \<Rightarrow> 'b outcome" where
  "host_extractBookmarks h browser =
     (case browser of
        JString name \<Rightarrow>
          (if toLowerCase name = ''chrome'' then extractBookmarks (chromeExtractor h)
           else if toLowerCase name = ''firefox'' then extractBookmarks (firefoxExtractor h)
           else if toLowerCase name = ''safari'' then extractBookmarks (safariExtractor h)
           else Rejects (ErrorObj (''Unsupported browser: '' @ name)))
      | _ \<Rightarrow> Rejects (ErrorObj ''browser.toLowerCase is not a function''))"

text \<open>\<^verbatim>\<open>getBookmarkDatabases\<close> of the host (lines 110-118): three awaits, one after the other.\<close>

definition host_getBookmarkDatabases :: "('b, 'p) host \<Rightarrow> ('b, 'p) result outcome" where
  "host_getBookmarkDatabases h =
     await (getDatabasePath (chromeExtractor h)) (\<lambda>chrome.
     await (getDatabasePath (firefoxExtractor h)) (\<lambda>firefox.
     await (getDatabasePath (safariExtractor h)) (\<lambda>safari.
     Resolves (Databases chrome firefox safari))))"

text \<open>\<^verbatim>\<open>message.data?.browser\<close>; \<open>None\<close> is \<^verbatim>\<open>undefined\<close>.\<close>

definition data_browser :: "json option \<Rightarrow> json option" where
  "data_browser d =
     (case d of
        Some (JObject props) \<Rightarrow> map_of props ''browser''
      | _ \<Rightarrow> None)"

fun truthy :: "json \<Rightarrow> bool" where
  "truthy JNull = False"
| "truthy (JBool b) = b"
| "truthy (JNumber n) = (n \<noteq> 0)"
| "truthy (JString s) = (s \<noteq> [])"
| "truthy (JArray _) = True"
| "truthy (JObject _) = True"

text \<open>\<^verbatim>\<open>v || d\<close>.\<close>

definition or_else :: "json option \<Rightarrow> json \<Rightarrow> json" where
  "or_else v d = (case v of None \<Rightarrow> d | Some x \<Rightarrow> if truthy x then x else d)"

text \<open>The \<^verbatim>\<open>switch\<close> of \<^verbatim>\<open>handleMessage\<close> (lines 63-78); \<open>now\<close> is \<^verbatim>\<open>Date.now()\<close>.\<close>

definition dispatch :: "('b, 'p) host \<Rightarrow> nat \<Rightarrow> NativeMessage \<Rightarrow> ('b, 'p) result outcome" where
  "dispatch h now message =
     (if command message = ''extractBookmarks''
      then await (host_extractBookmarks h (or_else (data_browser (data message)) (JString ''chrome'')))
             (\<lambda>r. Resolves (Extracted r))
      else if command message = ''getBookmarkDatabases''
      then host_getBookmarkDatabases h
      else if command message = ''ping''
      then Resolves (Ping ''alive'' now)
      else Rejects (ErrorObj (''Unknown command: '' @ command message)))"

text \<open>\<^verbatim>\<open>error instanceof Error ? error.message : 'Unknown error'\<close>.\<close>

definition error_message :: "thrown \<Rightarrow> string" where
  "error_message e = (case e of ErrorObj m \<Rightarrow> m | OtherValue \<Rightarrow> ''Unknown error'')"

definition sendResponse ::
  "('d NativeResponse \<Rightarrow> thrown + byte list) \<Rightarrow> 'd NativeResponse \<Rightarrow> thrown + byte list" where
  "sendResponse stringify response = sendMessage stringify response"

definition sendError ::
  "('d NativeResponse \<Rightarrow> thrown + byte list) \<Rightarrow> string \<Rightarrow> string \<Rightarrow> thrown + byte list" where
  "sendError stringify err rid =
     sendMessage stringify
       \<lparr>success = False, resp_data = None, resp_error = Some err, resp_requestId = rid\<rparr>"

text \<open>
  \<^verbatim>\<open>handleMessage\<close> (lines 59-92). The result lists the frames written to stdout. The call of
  \<^verbatim>\<open>sendResponse\<close> is inside the \<^verbatim>\<open>try\<close>, so a response that cannot be serialized ends in the
  \<^verbatim>\<open>catch\<close> as well; when \<^verbatim>\<open>sendError\<close> throws there, the promise of \<^verbatim>\<open>handleMessage\<close> is
  rejected and nothing is written.
\<close>

definition handleMessage ::
  "(('b, 'p) result NativeResponse \<Rightarrow> thrown + byte list) \<Rightarrow> ('b, 'p) host \<Rightarrow> nat
     \<Rightarrow> NativeMessage \<Rightarrow> byte list list" where
  "handleMessage stringify h now message =
     (let catch = (\<lambda>e. case sendError stringify (error_message e) (requestId message) of
                          Inr bytes \<Rightarrow> [bytes]
                        | Inl _ \<Rightarrow> [])
      in case dispatch h now message of
           Never \<Rightarrow> []
         | Rejects e \<Rightarrow> catch e
         | Resolves r \<Rightarrow>
             (case sendResponse stringify
                     \<lparr>success = True, resp_data = Some r, resp_error = None,
                      resp_requestId = requestId message\<rparr> of
                Inr bytes \<Rightarrow> [bytes]
              | Inl e \<Rightarrow> catch e))"

text \<open>
  The same method on any value that \<^verbatim>\<open>JSON.parse\<close> can return. \<open>member v key\<close> is \<^verbatim>\<open>v.key\<close> for a
  value other than \<^verbatim>\<open>null\<close>: the own property of an object, and \<^verbatim>\<open>undefined\<close> on a boolean, a
  number, a string or an array, which have no property called \<^verbatim>\<open>command\<close>, \<^verbatim>\<open>data\<close>, \<^verbatim>\<open>requestId\<close>
  or \<^verbatim>\<open>browser\<close>.
\<close>

definition member :: "json \<Rightarrow> string \<Rightarrow> json option" where
  "member v key = (case v of JObject props \<Rightarrow> map_of props key | _ \<Rightarrow> None)"

text \<open>\<^verbatim>\<open>Array.prototype.join\<close> with its default separator, on the strings of the elements.\<close>

fun join :: "string list \<Rightarrow> string" where
  "join [] = []"
| "join [x] = x"
| "join (x # y # ys) = x @ '','' @ join (y # ys)"

text \<open>
  The string that a template literal makes of a value, or \<open>None\<close> where the conversion throws
  a \<^verbatim>\<open>TypeError\<close>. An array joins the strings of its elements, where \<^verbatim>\<open>null\<close> counts as the empty
  string. An object is \<^verbatim>\<open>[object Object]\<close> by \<^verbatim>\<open>Object.prototype.toString\<close>, unless it has a property
  \<^verbatim>\<open>toString\<close> of its own: a value that \<^verbatim>\<open>JSON.parse\<close> returned is not a function, the inherited
  \<^verbatim>\<open>valueOf\<close> gives the object back, and the conversion throws. \<open>num\<close> is
  \<^verbatim>\<open>Number.prototype.toString\<close>, which belongs to the runtime.
\<close>

fun to_string :: "(rat \<Rightarrow> string) \<Rightarrow> json \<Rightarrow> string option" where
  "to_string num JNull = Some ''null''"
| "to_string num (JBool b) = Some (if b then ''true'' else ''false'')"
| "to_string num (JNumber n) = Some (num n)"
| "to_string num (JString s) = Some s"
| "to_string num (JArray xs) =
     (if None \<in> set (map (\<lambda>x. if x = JNull then Some [] else to_string num x) xs) then None
      else Some (join (map (\<lambda>x. if x = JNull then [] else the (to_string num x)) xs)))"
| "to_string num (JObject props) =
     (if map_of props ''toString'' = None then Some ''[object Object]'' else None)"

text \<open>
  The message of the error that the \<^verbatim>\<open>default\<close> branch of the \<^verbatim>\<open>switch\<close> throws: the one of line
  77, or the one of the \<^verbatim>\<open>TypeError\<close> thrown while the template literal is evaluated.
\<close>

definition unknown_command :: "(rat \<Rightarrow> string) \<Rightarrow> json option \<Rightarrow> string" where
  "unknown_command num v =
     (case v of
        None \<Rightarrow> ''Unknown command: undefined''
      | Some x \<Rightarrow>
          (case to_string num x of
             Some t \<Rightarrow> ''Unknown command: '' @ t
           | None \<Rightarrow> ''Cannot convert object to primitive value''))"

text \<open>
  The \<^verbatim>\<open>switch\<close> of \<^verbatim>\<open>handleMessage\<close> (lines 63-78) on a message other than \<^verbatim>\<open>null\<close>. A \<^verbatim>\<open>case\<close> is
  taken when \<^verbatim>\<open>message.command\<close> is that very string.
\<close>

definition dispatch_any ::
  "(rat \<Rightarrow> string) \<Rightarrow> ('b, 'p) host \<Rightarrow> nat \<Rightarrow> json \<Rightarrow> ('b, 'p) result outcome" where
  "dispatch_any num h now message =
     (if member message ''command'' = Some (JString ''extractBookmarks'')
      then await (host_extractBookmarks h
                    (or_else (data_browser (member message ''data'')) (JString ''chrome'')))
             (\<lambda>r. Resolves (Extracted r))
      else if member message ''command'' = Some (JString ''getBookmarkDatabases'')
      then host_getBookmarkDatabases h
      else if member message ''command'' = Some (JString ''ping'')
      then Resolves (Ping ''alive'' now)
      else Rejects (ErrorObj (unknown_command num (member message ''command''))))"

text \<open>The objects that \<^verbatim>\<open>handleMessage\<close> gives to \<^verbatim>\<open>sendResponse\<close> and that \<^verbatim>\<open>sendError\<close> builds.\<close>

definition success_reply :: "'d \<Rightarrow> json option \<Rightarrow> 'd reply" where
  "success_reply r rid =
     \<lparr>reply_success = True, reply_data = Some r, reply_error = None, reply_requestId = rid\<rparr>"

definition failure_reply :: "string \<Rightarrow> json option \<Rightarrow> 'd reply" where
  "failure_reply err rid =
     \<lparr>reply_success = False, reply_data = None, reply_error = Some err, reply_requestId = rid\<rparr>"

text \<open>
  \<^verbatim>\<open>handleMessage\<close> (lines 59-92) on any value that \<^verbatim>\<open>JSON.parse\<close> can return. \<open>Inr\<close> lists the
  frames written to stdout; \<open>Inl\<close> is the value with which the promise of \<^verbatim>\<open>handleMessage\<close> is
  rejected, and then nothing was written. On \<^verbatim>\<open>null\<close> reading \<^verbatim>\<open>message.command\<close> throws a
  \<^verbatim>\<open>TypeError\<close> inside the \<^verbatim>\<open>try\<close>, and reading \<^verbatim>\<open>message.requestId\<close> throws another one inside the
  \<^verbatim>\<open>catch\<close>, which nothing catches. A handler that never settles leaves the promise pending
  with nothing written.
\<close>

definition handleMessage_any ::
  "(('b, 'p) result reply \<Rightarrow> thrown + byte list) \<Rightarrow> (rat \<Rightarrow> string) \<Rightarrow> ('b, 'p) host \<Rightarrow> nat
     \<Rightarrow> json \<Rightarrow> thrown + byte list list" where
  "handleMessage_any stringify num h now message =
     (if message = JNull
      then Inl (ErrorObj ''Cannot read properties of null (reading 'requestId')'')
      else
        (let catch = (\<lambda>e. case sendMessage stringify
                                  (failure_reply (error_message e) (member message ''requestId'')) of
                             Inr bytes \<Rightarrow> Inr [bytes]
                           | Inl e' \<Rightarrow> Inl e')
         in case dispatch_any num h now message of
              Never \<Rightarrow> Inr []
            | Rejects e \<Rightarrow> catch e
            | Resolves r \<Rightarrow>
                (case sendMessage stringify (success_reply r (member message ''requestId'')) of
                   Inr bytes \<Rightarrow> Inr [bytes]
                 | Inl e \<Rightarrow> catch e)))"

text \<open>A response with a string for its request id, as a reply.\<close>

definition as_reply :: "'d NativeResponse \<Rightarrow> 'd reply" where
  "as_reply r =
     \<lparr>reply_success = success r, reply_data = resp_data r, reply_error = resp_error r,
      reply_requestId = Some (JString (resp_requestId r))\<rparr>"

section \<open>The client of the extension\<close>

text \<open>
  \<^verbatim>\<open>packages/extension/src/background/native-messaging.ts\<close>. The client runs on one event loop:
  its state changes when a method is called, when the port delivers a message or a
  disconnect, and when a timer fires. Time is a clock in milliseconds that the events advance.
\<close>

definition NATIVE_MESSAGE_TIMEOUT :: nat where
  "NATIVE_MESSAGE_TIMEOUT = 10000"

text \<open>
  The two closures passed to \<^verbatim>\<open>setTimeout\<close>: the one of \<^verbatim>\<open>sendMessage\<close> (lines 66-71), which
  holds the request id and the \<^verbatim>\<open>reject\<close> of its caller, and the one of the disconnect listener
  (lines 30-32).
\<close>

datatype callback = RequestTimeout string nat | Reconnect

record timer =
  due :: nat
  callback :: callback

text \<open>A call of \<^verbatim>\<open>resolve\<close> or of \<^verbatim>\<open>reject\<close>.\<close>

datatype 'd settlement = Resolved "'d option" | Rejected thrown

text \<open>
  What \<^verbatim>\<open>connectToNativeHost\<close> meets: no \<^verbatim>\<open>browser.runtime.connectNative\<close>, a call that throws, or
  a port.
\<close>

datatype connect_result = Unsupported | ConnectThrows | Opened

text \<open>
  The client. A caller of \<^verbatim>\<open>sendMessage\<close> is the number of its call; a handler stored in
  \<^verbatim>\<open>messageHandlers\<close> is the closure of lines 55-63, known by the caller whose promise it settles
  (the request id it holds is the key it is stored under). \<open>settlements\<close> records every call
  of \<^verbatim>\<open>resolve\<close> and \<^verbatim>\<open>reject\<close>, \<open>posted\<close> every message given to \<^verbatim>\<open>postMessage\<close>, \<open>attempts\<close>
  counts the calls of \<^verbatim>\<open>connectToNativeHost\<close>; an open port is known by the attempt that
  opened it.
\<close>

record 'd client =
  port :: "nat option"
  messageHandlers :: "string \<rightharpoonup> nat"
  timers :: "timer list"
  clock :: nat
  settlements :: "(nat \<times> 'd settlement) list"
  posted :: "NativeMessage list"
  callers :: nat
  attempts :: nat

definition setTimeout :: "callback \<Rightarrow> nat \<Rightarrow> 'd client \<Rightarrow> 'd client" where
  "setTimeout cb delay s = s\<lparr>timers := timers s @ [\<lparr>due = clock s + delay, callback = cb\<rparr>]\<rparr>"

definition settle :: "nat \<Rightarrow> 'd settlement \<Rightarrow> 'd client \<Rightarrow> 'd client" where
  "settle caller outcome s = s\<lparr>settlements := settlements s @ [(caller, outcome)]\<rparr>"

text \<open>
  \<^verbatim>\<open>connectToNativeHost\<close> (lines 12-39) without its disconnect listener, which is \<open>onDisconnect\<close>
  below. \<open>connectNative\<close> tells what each attempt meets.
\<close>

definition connectToNativeHost :: "(nat \<Rightarrow> connect_result) \<Rightarrow> 'd client \<Rightarrow> 'd client" where
  "connectToNativeHost connectNative s =
     (case connectNative (attempts s) of
        Opened \<Rightarrow> s\<lparr>port := Some (attempts s), attempts := Suc (attempts s)\<rparr>
      | _ \<Rightarrow> s\<lparr>attempts := Suc (attempts s)\<rparr>)"

text \<open>The listener of \<^verbatim>\<open>port.onDisconnect\<close> (lines 25-33).\<close>

definition onDisconnect :: "'d client \<Rightarrow> 'd client" where
  "onDisconnect s = setTimeout Reconnect 5000 (s\<lparr>port := None\<rparr>)"

text \<open>\<^verbatim>\<open>new NativeMessagingClient()\<close>.\<close>

definition new_client :: "(nat \<Rightarrow> connect_result) \<Rightarrow> 'd client" where
  "new_client connectNative =
     connectToNativeHost connectNative
       \<lparr>port = None, messageHandlers = Map.empty, timers = [], clock = 0, settlements = [],
        posted = [], callers = 0, attempts = 0\<rparr>"

text \<open>
  \<^verbatim>\<open>generateRequestId\<close> (lines 122-124); \<open>now\<close> is \<^verbatim>\<open>Date.now()\<close> and \<open>random\<close> is
  \<^verbatim>\<open>Math.random().toString(36)\<close>.
\<close>

definition generateRequestId :: "nat \<Rightarrow> string \<Rightarrow> string" where
  "generateRequestId now random = ''req_'' @ decimal now @ ''_'' @ take 9 (drop 2 random)"

text \<open>The handler that \<^verbatim>\<open>sendMessage\<close> stores (lines 55-63), called with a response.\<close>

definition response_handler ::
  "nat \<Rightarrow> string \<Rightarrow> 'd NativeResponse \<Rightarrow> 'd client \<Rightarrow> 'd client" where
  "response_handler caller rid response s =
     (let s' = s\<lparr>messageHandlers := (messageHandlers s)(rid := None)\<rparr>
      in if success response then settle caller (Resolved (resp_data response)) s'
         else settle caller
                (Rejected (ErrorObj (case resp_error response of
                                       None \<Rightarrow> ''Native messaging error''
                                     | Some e \<Rightarrow> if e = [] then ''Native messaging error'' else e)))
                s')"

text \<open>The timeout closure of \<^verbatim>\<open>sendMessage\<close> (lines 66-71).\<close>

definition request_timeout :: "string \<Rightarrow> nat \<Rightarrow> 'd client \<Rightarrow> 'd client" where
  "request_timeout rid caller s =
     (if messageHandlers s rid \<noteq> None
      then settle caller (Rejected (ErrorObj ''Native messaging timeout''))
             (s\<lparr>messageHandlers := (messageHandlers s)(rid := None)\<rparr>)
      else s)"

text \<open>
  \<^verbatim>\<open>sendMessage\<close> of the client (lines 41-81). \<open>now\<close> and \<open>random\<close> feed \<open>generateRequestId\<close>;
  \<open>post\<close> is what \<^verbatim>\<open>postMessage\<close> throws, if it throws.
\<close>

definition client_sendMessage ::
  "string \<Rightarrow> json option \<Rightarrow> nat \<Rightarrow> string \<Rightarrow> thrown option \<Rightarrow> 'd client \<Rightarrow> 'd client" where
  "client_sendMessage cmd dat now random post s =
     (let caller = callers s; s0 = s\<lparr>callers := Suc caller\<rparr>
      in case port s of
           None \<Rightarrow> settle caller (Rejected (ErrorObj ''Native messaging host not connected'')) s0
         | Some _ \<Rightarrow>
             (let rid = generateRequestId now random;
                  message = \<lparr>command = cmd, data = dat, requestId = rid\<rparr>;
                  s1 = s0\<lparr>messageHandlers := (messageHandlers s0)(rid \<mapsto> caller)\<rparr>;
                  s2 = setTimeout (RequestTimeout rid caller) NATIVE_MESSAGE_TIMEOUT s1
              in case post of
                   None \<Rightarrow> s2\<lparr>posted := posted s2 @ [message]\<rparr>
                 | Some e \<Rightarrow>
                     settle caller (Rejected e)
                       (s2\<lparr>messageHandlers := (messageHandlers s2)(rid := None)\<rparr>)))"

text \<open>\<^verbatim>\<open>handleNativeResponse\<close> (lines 113-120); the \<^verbatim>\<open>else\<close> branch only logs.\<close>

definition handleNativeResponse :: "'d NativeResponse \<Rightarrow> 'd client \<Rightarrow> 'd client" where
  "handleNativeResponse response s =
     (case messageHandlers s (resp_requestId response) of
        Some caller \<Rightarrow> response_handler caller (resp_requestId response) response s
      | None \<Rightarrow> s)"

text \<open>\<^verbatim>\<open>disconnect\<close> (lines 130-135).\<close>

definition disconnect :: "'d client \<Rightarrow> 'd client" where
  "disconnect s = (case port s of Some _ \<Rightarrow> s\<lparr>port := None\<rparr> | None \<Rightarrow> s)"

text \<open>Running the closure of a timer.\<close>

definition run_callback :: "(nat \<Rightarrow> connect_result) \<Rightarrow> callback \<Rightarrow> 'd client \<Rightarrow> 'd client" where
  "run_callback connectNative cb s =
     (case cb of
        RequestTimeout rid caller \<Rightarrow> request_timeout rid caller s
      | Reconnect \<Rightarrow> connectToNativeHost connectNative s)"

text \<open>The timer to fire next: the earliest one, and among equals the one set first.\<close>

fun earliest :: "timer list \<Rightarrow> timer option" where
  "earliest [] = None"
| "earliest (x # xs) =
     (case earliest xs of
        None \<Rightarrow> Some x
      | Some y \<Rightarrow> if due x \<le> due y then Some x else Some y)"

text \<open>
  The event loop up to time \<open>t\<close>: as long as a timer is due, the next one is taken off the
  list and its closure runs.
\<close>

function fire_due :: "(nat \<Rightarrow> connect_result) \<Rightarrow> nat \<Rightarrow> 'd client \<Rightarrow> 'd client" where
  "fire_due connectNative t s =
     (case earliest (filter (\<lambda>tm. due tm \<le> t) (timers s)) of
        None \<Rightarrow> s\<lparr>clock := max (clock s) t\<rparr>
      | Some tm \<Rightarrow>
          fire_due connectNative t
            (run_callback connectNative (callback tm)
               (s\<lparr>timers := remove1 tm (timers s), clock := max (clock s) (due tm)\<rparr>)))"
  by pat_completeness auto
termination
proof (relation "measure (\<lambda>(connectNative, t, s). length (timers s))")
  show "wf (measure (\<lambda>(connectNative :: nat \<Rightarrow> connect_result, t :: nat, s :: 'd client).
              length (timers s)))"
    by simp
next
  fix connectNative :: "nat \<Rightarrow> connect_result" and t :: nat and s :: "'d client" and tm :: timer
  assume e: "earliest (filter (\<lambda>tm. due tm \<le> t) (timers s)) = Some tm"
  have mem: "\<And>xs x. earliest xs = Some x \<Longrightarrow> x \<in> set xs"
  proof -
    fix xs :: "timer list" and x
    show "earliest xs = Some x \<Longrightarrow> x \<in> set xs"
      by (induction xs arbitrary: x) (auto split: option.splits if_splits)
  qed
  from mem [OF e] have "tm \<in> set (timers s)" by simp
  then have "length (remove1 tm (timers s)) < length (timers s)"
    by (simp add: length_remove1) (cases "timers s", auto)
  moreover have "timers (run_callback connectNative (callback tm)
                    (s\<lparr>timers := remove1 tm (timers s), clock := max (clock s) (due tm)\<rparr>))
                 = remove1 tm (timers s)"
    by (simp add: run_callback_def request_timeout_def connectToNativeHost_def settle_def
          split: callback.splits connect_result.splits)
  ultimately show
    "((connectNative, t, run_callback connectNative (callback tm)
         (s\<lparr>timers := remove1 tm (timers s), clock := max (clock s) (due tm)\<rparr>)),
      (connectNative, t, s)) \<in> measure (\<lambda>(connectNative, t, s). length (timers s))"
    by simp
qed

declare fire_due.simps [simp del]

text \<open>What happens to a client, one event after the other.\<close>

datatype 'd event =
    SendMessage string "json option" nat string "thrown option"
  | OnMessage "'d NativeResponse"
  | PortDisconnected
  | Disconnect
  | Elapse nat

fun step :: "(nat \<Rightarrow> connect_result) \<Rightarrow> 'd event \<Rightarrow> 'd client \<Rightarrow> 'd client" where
  "step connectNative (SendMessage cmd dat now random post) s =
     client_sendMessage cmd dat now random post s"
| "step connectNative (OnMessage response) s = handleNativeResponse response s"
| "step connectNative PortDisconnected s = onDisconnect s"
| "step connectNative Disconnect s = disconnect s"
| "step connectNative (Elapse dt) s = fire_due connectNative (clock s + dt) s"

fun run :: "(nat \<Rightarrow> connect_result) \<Rightarrow> 'd client \<Rightarrow> 'd event list \<Rightarrow> 'd client" where
  "run connectNative s [] = s"
| "run connectNative s (ev # evs) = run connectNative (step connectNative ev s) evs"

text \<open>The request ids whose timeout closure is still waiting on a timer.\<close>

definition waiting_ids :: "'d client \<Rightarrow> string list" where
  "waiting_ids s =
     concat (map (\<lambda>tm. case callback tm of RequestTimeout rid _ \<Rightarrow> [rid] | Reconnect \<Rightarrow> [])
                 (timers s))"

text \<open>
  A run in which every request id that \<open>generateRequestId\<close> returns differs from the ids of
  the requests whose timer has not fired yet.
\<close>

fun fresh_ids :: "(nat \<Rightarrow> connect_result) \<Rightarrow> 'd client \<Rightarrow> 'd event list \<Rightarrow> bool" where
  "fresh_ids connectNative s [] = True"
| "fresh_ids connectNative s (ev # evs) =
     ((case ev of
         SendMessage cmd dat now random post \<Rightarrow>
           port s = None \<or> generateRequestId now random \<notin> set (waiting_ids s)
       | _ \<Rightarrow> True)
      \<and> fresh_ids connectNative (step connectNative ev s) evs)"

text \<open>How often the promise of a caller has been settled.\<close>

definition settled :: "nat \<Rightarrow> 'd client \<Rightarrow> 'd settlement list" where
  "settled caller s = map snd (filter (\<lambda>c. fst c = caller) (settlements s))"

text \<open>A parser that knows two payloads, the texts \<^verbatim>\<open>{}\<close> and \<^verbatim>\<open>[]\<close>, to run the assembler on.\<close>

definition example_parse :: "byte list \<Rightarrow> string option" where
  "example_parse b =
     (if b = [123, 125] then Some ''{}'' else if b = [91, 93] then Some ''[]'' else None)"

text \<open>A serializer for the same two texts; it throws on anything else.\<close>

definition example_stringify :: "string \<Rightarrow> thrown + byte list" where
  "example_stringify m =
     (if m = ''{}'' then Inr [123, 125] else if m = ''[]'' then Inr [91, 93]
      else Inl (ErrorObj ''Converting circular structure to JSON''))"

text \<open>
  A serializer for responses to run the host on: a byte for \<open>success\<close>, then the bytes of the
  request id, a zero byte and the bytes of the error message. Bookmarks are lists of URLs and
  a database path is a string or \<^verbatim>\<open>null\<close>.
\<close>

definition example_serialize ::
  "(string list, string option) result NativeResponse \<Rightarrow> thrown + byte list" where
  "example_serialize r =
     Inr ((if success r then [1] else [0])
          @ map (\<lambda>c. of_nat (of_char c)) (resp_requestId r) @ [0]
          @ map (\<lambda>c. of_nat (of_char c)) (case resp_error r of None \<Rightarrow> [] | Some e \<Rightarrow> e))"

text \<open>
  A host to run the dispatcher on: Chrome answers, Firefox fails, Safari has no bookmarks
  and no database.
\<close>

definition example_host :: "(string list, string option) host" where
  "example_host =
     \<lparr>chromeExtractor =
        \<lparr>extractBookmarks = Resolves [''https://example.org''],
         getDatabasePath = Resolves (Some ''/chrome/Bookmarks'')\<rparr>,
      firefoxExtractor =
        \<lparr>extractBookmarks = Rejects (ErrorObj ''no''),
         getDatabasePath = Rejects (ErrorObj ''no'')\<rparr>,
      safariExtractor =
        \<lparr>extractBookmarks = Resolves [], getDatabasePath = Resolves None\<rparr>\<rparr>"




section \<open>Invariants and runs of the client\<close>

text \<open>The closures that are waiting on a timer.\<close>

definition waiting :: "'d client \<Rightarrow> callback set" where
  "waiting s = callback ` set (timers s)"

text \<open>
  What holds of the client as long as request ids are fresh: a stored handler belongs to a
  caller that is not settled and whose timer is waiting; a waiting timeout closure belongs to
  a caller that is pending or settled once; request ids and callers of waiting closures
  determine each other; a caller without a waiting closure is settled once; nobody is
  settled twice.
\<close>

definition consistent :: "'d client \<Rightarrow> bool" where
  "consistent s \<longleftrightarrow>
     (\<forall>rid p. messageHandlers s rid = Some p \<longrightarrow>
        RequestTimeout rid p \<in> waiting s \<and> settled p s = [])
   \<and> (\<forall>rid p. RequestTimeout rid p \<in> waiting s \<longrightarrow>
        p < callers s \<and> (messageHandlers s rid = None \<longrightarrow> length (settled p s) = 1))
   \<and> (\<forall>rid p q. RequestTimeout rid p \<in> waiting s \<longrightarrow> RequestTimeout rid q \<in> waiting s \<longrightarrow> p = q)
   \<and> (\<forall>rid rid' p. RequestTimeout rid p \<in> waiting s \<longrightarrow> RequestTimeout rid' p \<in> waiting s \<longrightarrow> rid = rid')
   \<and> (\<forall>p < callers s. (\<exists>rid. RequestTimeout rid p \<in> waiting s) \<or> length (settled p s) = 1)
   \<and> (\<forall>p \<ge> callers s. settled p s = [])
   \<and> (\<forall>p. length (settled p s) \<le> 1)"

text \<open>Between two events every timer on the list is due in the future.\<close>

definition timely :: "'d client \<Rightarrow> bool" where
  "timely s \<longleftrightarrow> (\<forall>tm \<in> set (timers s). clock s < due tm)"

text \<open>No timer is set further ahead than the request timeout.\<close>

definition prompt :: "'d client \<Rightarrow> bool" where
  "prompt s \<longleftrightarrow> (\<forall>tm \<in> set (timers s). due tm \<le> clock s + NATIVE_MESSAGE_TIMEOUT)"

text \<open>
  One request, from the moment it is posted: either it is pending, with its timer waiting, or
  its caller has been rejected with the timeout error and its handler is gone.
\<close>

definition tracked :: "string \<Rightarrow> nat \<Rightarrow> nat \<Rightarrow> 'd client \<Rightarrow> bool" where
  "tracked rid p d s \<longleftrightarrow>
     (\<lparr>due = d, callback = RequestTimeout rid p\<rparr> \<in> set (timers s)
        \<and> messageHandlers s rid = Some p \<and> settled p s = [])
     \<or> (messageHandlers s rid \<noteq> Some p
        \<and> settled p s = [Rejected (ErrorObj ''Native messaging timeout'')])"






text \<open>Runs of the client to evaluate: the host is there whenever the client connects.\<close>

definition example_connect :: "nat \<Rightarrow> connect_result" where
  "example_connect attempt = Opened"

text \<open>
  Two requests three milliseconds apart; the second is answered, the first times out and is
  answered too late.
\<close>

definition example_events :: "string event list" where
  "example_events =
     [SendMessage ''ping'' None 7 ''0.abc'' None,
      Elapse 3,
      SendMessage ''ping'' None 7 ''0.abd'' None,
      OnMessage \<lparr>success = True, resp_data = Some ''alive'', resp_error = None,
                 resp_requestId = ''req_7_abd''\<rparr>,
      Elapse 10000,
      OnMessage \<lparr>success = True, resp_data = Some ''alive'', resp_error = None,
                 resp_requestId = ''req_7_abc''\<rparr>]"


text \<open>
  A request that is answered at once, and a second one in the same millisecond that gets the
  same request id.
\<close>

definition reusing_events :: "string event list" where
  "reusing_events =
     [SendMessage ''ping'' None 7 ''0.4fzyo82mvyr'' None,
      OnMessage \<lparr>success = True, resp_data = Some ''alive'', resp_error = None,
                 resp_requestId = ''req_7_4fzyo82mv''\<rparr>,
      SendMessage ''ping'' None 7 ''0.4fzyo82mvq1'' None,
      Elapse 10000]"


text \<open>A request for which \<^verbatim>\<open>postMessage\<close> throws, and ten seconds after it.\<close>

definition throwing_events :: "string event list" where
  "throwing_events =
     [SendMessage ''ping'' None 7 ''0.abc''
        (Some (ErrorObj ''Attempting to use a disconnected port object'')),
      Elapse 10000]"


section \<open>Properties of the codec and the assembler\<close>

lemma le32_sum:
  fixes n :: nat
  assumes "n < 2 ^ 32"
  shows "n mod 256 + 256 * (n div 256 mod 256) + 65536 * (n div 65536 mod 256)
        + 16777216 * (n div 16777216 mod 256) = n"
proof -
  define a where "a = n div 256"
  define b where "b = a div 256"
  define c where "c = b div 256"
  have n: "n = 256 * a + n mod 256" unfolding a_def by simp
  have a: "a = 256 * b + a mod 256" unfolding b_def by simp
  have b: "b = 256 * c + b mod 256" unfolding c_def by simp
  have b2: "b = n div 65536" unfolding b_def a_def by (simp add: div_mult2_eq)
  have c2: "c = n div 16777216" unfolding c_def b2 by (simp add: div_mult2_eq)
  have "c < 256" unfolding c2 using assms by (simp add: less_mult_imp_div_less)
  then have c3: "c mod 256 = c" by simp
  have "n mod 256 + 256 * (a mod 256) + 65536 * (b mod 256) + 16777216 * (c mod 256) = n"
    using n a b c3 by linarith
  then show ?thesis unfolding a_def[symmetric] b2[symmetric] c2[symmetric] .
qed

lemma unat_byte: "unat (of_nat k :: byte) = k mod 256"
  by (simp add: unat_of_nat)

lemma length_uint32le [simp]: "length (uint32le n) = 4"
  by (simp add: uint32le_def)

lemma readUInt32LE_uint32le:
  assumes "n < 2 ^ 32"
  shows "readUInt32LE (uint32le n @ rest) = n"
proof -
  have "readUInt32LE (uint32le n @ rest) =
        n mod 256 mod 256 + 256 * (n div 256 mod 256 mod 256)
        + 65536 * (n div 65536 mod 256 mod 256)
        + 16777216 * (n div 16777216 mod 256 mod 256)"
    unfolding readUInt32LE_def uint32le_def
    by (simp only: unat_byte append_Cons nth_Cons_0 nth_Cons_Suc nth_Cons_numeral append_Nil
          One_nat_def numeral_2_eq_2 numeral_3_eq_3 diff_Suc_1 pred_numeral_simps)
  also have "\<dots> = n"
    using le32_sum [OF assms] by (simp only: mod_mod_trivial)
  finally show ?thesis .
qed

lemma readUInt32LE_append:
  "4 \<le> length b \<Longrightarrow> readUInt32LE (b @ c) = readUInt32LE b"
  by (auto simp: readUInt32LE_def nth_append)

lemma read_length_idem: "read_length (read_length s) = read_length s"
  by (simp add: read_length_def)

lemma loop_read_length: "on_data_loop parse (read_length s) = on_data_loop parse s"
  by (subst on_data_loop.simps, subst (2) on_data_loop.simps) (simp add: read_length_idem)

lemma read_length_more:
  "expectingLength s \<Longrightarrow> 4 \<le> length (messageBuffer s) \<Longrightarrow>
   read_length (concat_chunk s c) = concat_chunk (read_length s) c"
  by (simp add: read_length_def concat_chunk_def readUInt32LE_append)

lemma read_length_more_waiting:
  "\<not> expectingLength s \<Longrightarrow> read_length (concat_chunk s c) = concat_chunk (read_length s) c"
  by (simp add: read_length_def concat_chunk_def)

lemma loop_more_read_length:
  "on_data_loop parse (concat_chunk (read_length s) c) = on_data_loop parse (concat_chunk s c)"
proof (cases "expectingLength s \<and> 4 \<le> length (messageBuffer s)")
  case True
  then have "concat_chunk (read_length s) c = read_length (concat_chunk s c)"
    by (simp add: read_length_more)
  then show ?thesis by (simp add: loop_read_length)
next
  case False
  then have "read_length s = s" by (auto simp: read_length_def)
  then show ?thesis by simp
qed

lemma consume_more:
  "messageLength s \<le> length (messageBuffer s) \<Longrightarrow> consume (concat_chunk s c) = concat_chunk (consume s) c"
  by (simp add: consume_def concat_chunk_def)

lemma loop_more:
  "on_data_loop parse (concat_chunk s c) =
     (case on_data_loop parse s of
        (s', acts) \<Rightarrow> (case on_data_loop parse (concat_chunk s' c) of
                         (s'', acts') \<Rightarrow> (s'', acts @ acts')))"
proof (induction parse s rule: on_data_loop.induct)
  case (1 parse s)
  let ?r = "read_length s"
  show ?case
  proof (cases "\<not> expectingLength ?r \<and> messageLength ?r \<le> length (messageBuffer ?r)")
    case True
    have r: "read_length (concat_chunk ?r c) = concat_chunk ?r c"
      using True by (simp add: read_length_def concat_chunk_def)
    have "on_data_loop parse (concat_chunk s c) = on_data_loop parse (concat_chunk ?r c)"
      by (simp add: loop_more_read_length)
    also have "\<dots> = (case on_data_loop parse (concat_chunk (consume ?r) c) of
                 (s', acts) \<Rightarrow> (s', on_payload parse (take (messageLength ?r) (messageBuffer ?r)) # acts))"
      using True by (subst on_data_loop.simps) (simp add: r consume_more [symmetric], simp add: concat_chunk_def)
    also have "\<dots> = (case on_data_loop parse s of
        (s', acts) \<Rightarrow> (case on_data_loop parse (concat_chunk s' c) of
                         (s'', acts') \<Rightarrow> (s'', acts @ acts')))"
      using True "1.IH" by (subst (2) on_data_loop.simps) (simp split: prod.splits)
    finally show ?thesis .
  next
    case False
    then have "on_data_loop parse s = (?r, [])"
      by (subst on_data_loop.simps) auto
    then show ?thesis
      by (simp add: loop_more_read_length)
  qed
qed


lemma loop_stalled:
  "on_data_loop parse s = (s', acts) \<Longrightarrow> on_data_loop parse s' = (s', [])"
proof (induction parse s arbitrary: s' acts rule: on_data_loop.induct)
  case (1 parse s)
  let ?r = "read_length s"
  show ?case
  proof (cases "\<not> expectingLength ?r \<and> messageLength ?r \<le> length (messageBuffer ?r)")
    case True
    obtain t bs where t: "on_data_loop parse (consume ?r) = (t, bs)"
      by (cases "on_data_loop parse (consume ?r)")
    with True "1.prems" have "s' = t"
      by (subst (asm) on_data_loop.simps) simp
    with "1.IH" [OF True t] show ?thesis by simp
  next
    case False
    then have "on_data_loop parse s = (?r, [])"
      by (subst on_data_loop.simps) auto
    with "1.prems" have "s' = ?r" by simp
    moreover have "on_data_loop parse ?r = (?r, [])"
      using \<open>on_data_loop parse s = (?r, [])\<close> by (simp add: loop_read_length)
    ultimately show ?thesis by simp
  qed
qed

lemma concat_chunk_Nil [simp]: "concat_chunk s [] = s"
  by (simp add: concat_chunk_def)

lemma concat_chunk_twice [simp]: "concat_chunk (concat_chunk s c) d = concat_chunk s (c @ d)"
  by (simp add: concat_chunk_def)

lemma feed_concat:
  "on_data_loop parse s = (s, []) \<Longrightarrow> feed parse s chunks = on_data parse s (concat chunks)"
proof (induction chunks arbitrary: s)
  case Nil
  then show ?case by (simp add: on_data_def concat_chunk_def)
next
  case (Cons c chunks)
  obtain t bs where t: "on_data_loop parse (concat_chunk s c) = (t, bs)"
    by (cases "on_data_loop parse (concat_chunk s c)")
  have st: "on_data_loop parse t = (t, [])"
    using t by (rule loop_stalled)
  have "on_data parse s (concat (c # chunks)) = on_data_loop parse (concat_chunk (concat_chunk s c) (concat chunks))"
    by (simp add: on_data_def concat_chunk_def)
  also have "\<dots> = (case on_data_loop parse (concat_chunk t (concat chunks)) of
                       (s'', acts') \<Rightarrow> (s'', bs @ acts'))"
    by (subst loop_more) (simp add: t)
  finally show ?case
    using Cons.IH [OF st] t by (simp add: on_data_def concat_chunk_def)
qed

lemma loop_initial: "on_data_loop parse initial = (initial, [])"
  by (subst on_data_loop.simps) (simp add: initial_def read_length_def)

lemma loop_frame:
  assumes "length p < 2 ^ 32"
  shows "on_data_loop parse (concat_chunk initial (frame p @ rest)) =
           (case on_data_loop parse (concat_chunk initial rest) of
              (s', acts) \<Rightarrow> (s', on_payload parse p # acts))"
proof -
  let ?s = "concat_chunk initial (frame p @ rest)"
  have r: "read_length ?s = \<lparr>messageLength = length p, messageBuffer = p @ rest, expectingLength = False\<rparr>"
    using readUInt32LE_uint32le [OF assms, of "p @ rest"]
    by (simp add: read_length_def concat_chunk_def initial_def frame_def)
  have c: "consume (read_length ?s) = concat_chunk initial rest"
    unfolding r by (simp add: consume_def concat_chunk_def initial_def)
  show ?thesis
    by (subst on_data_loop.simps) (simp only: c, simp only: r, simp)
qed

lemma loop_partial:
  assumes "length q < 2 ^ 32" and "k < length (frame q)"
  shows "\<exists>s'. on_data_loop parse (concat_chunk initial (take k (frame q))) = (s', [])
              \<and> unconsumed s' = take k (frame q) \<and> (k = 0 \<longrightarrow> s' = initial)"
proof (cases "k < 4")
  case True
  let ?s = "concat_chunk initial (take k (frame q))"
  have "read_length ?s = ?s"
    using True by (simp add: read_length_def concat_chunk_def initial_def)
  then have "on_data_loop parse ?s = (?s, [])"
    by (subst on_data_loop.simps) (simp add: concat_chunk_def initial_def)
  moreover have "unconsumed ?s = take k (frame q)"
    by (simp add: unconsumed_def concat_chunk_def initial_def)
  moreover have "k = 0 \<longrightarrow> ?s = initial"
    by (simp add: concat_chunk_def)
  ultimately show ?thesis by blast
next
  case False
  let ?s = "concat_chunk initial (take k (frame q))"
  let ?t = "\<lparr>messageLength = length q, messageBuffer = take (k - 4) q, expectingLength = False\<rparr>"
  have tk: "take k (frame q) = uint32le (length q) @ take (k - 4) q"
    using False by (simp add: frame_def)
  have r: "read_length ?s = ?t"
    using readUInt32LE_uint32le [OF assms(1), of "take (k - 4) q"] False
    by (simp add: read_length_def concat_chunk_def initial_def tk)
  have "k - 4 < length q"
    using assms(2) False by (simp add: frame_def)
  then have "on_data_loop parse ?s = (?t, [])"
    by (subst on_data_loop.simps) (simp only: r, simp)
  moreover have "unconsumed ?t = take k (frame q)"
    by (simp add: unconsumed_def tk)
  ultimately show ?thesis using False by auto
qed

lemma loop_frames:
  assumes "\<forall>p \<in> set ps. length p < 2 ^ 32"
    and "length q < 2 ^ 32" and "k < length (frame q)"
  shows "\<exists>s'. on_data_loop parse (concat_chunk initial (concat (map frame ps) @ take k (frame q)))
                = (s', map (on_payload parse) ps)
              \<and> unconsumed s' = take k (frame q) \<and> (k = 0 \<longrightarrow> s' = initial)"
  using assms(1)
proof (induction ps)
  case Nil
  then show ?case using loop_partial [OF assms(2,3), of parse] by simp
next
  case (Cons p ps)
  then obtain s' where
    s': "on_data_loop parse (concat_chunk initial (concat (map frame ps) @ take k (frame q)))
           = (s', map (on_payload parse) ps)"
        "unconsumed s' = take k (frame q)" "k = 0 \<longrightarrow> s' = initial"
    by auto
  have "length p < 2 ^ 32" using Cons.prems by simp
  from loop_frame [OF this, of parse "concat (map frame ps) @ take k (frame q)"] s'
  show ?case by simp
qed

lemma feed_frames:
  assumes "\<forall>p \<in> set ps. length p < 2 ^ 32"
    and "length q < 2 ^ 32" and "k < length (frame q)"
    and "concat chunks = concat (map frame ps) @ take k (frame q)"
  shows "\<exists>s'. feed parse initial chunks = (s', map (on_payload parse) ps)
              \<and> unconsumed s' = take k (frame q) \<and> (k = 0 \<longrightarrow> s' = initial)"
  using loop_frames [OF assms(1-3), of parse] feed_concat [OF loop_initial, of parse chunks]
  by (simp add: assms(4) on_data_def concat_chunk_def)


lemma map_on_payload:
  "list_all2 (\<lambda>p m. length p < 2 ^ 32 \<and> parse p = Some m) ps ms \<Longrightarrow>
   map (on_payload parse) ps = map HandleMessage ms \<and> (\<forall>p \<in> set ps. length p < 2 ^ 32)"
  by (induction rule: list_all2_induct) (auto simp: on_payload_def)

text \<open>
  Claim C1 (chunk invariance of the stream assembler). Take payloads \<open>ps\<close>, each shorter than
  \<open>2 ^ 32\<close> bytes and parsed to the message at the same place of \<open>ms\<close>, and let the chunks,
  put together, be the frames of \<open>ps\<close> followed by the first \<open>k\<close> bytes of one more frame that
  is not complete. Wherever the chunks are cut, calling the listener on them in order
  hands exactly the messages \<open>ms\<close> to \<open>handleMessage\<close>, in order, and the assembler still holds
  exactly the \<open>k\<close> bytes of the incomplete frame. With \<open>k = 0\<close> the chunks are the whole stream
  and the assembler is back in its first state. Applied to the first chunks of a stream, the
  statement says that every frame that is complete at the end of a chunk has been handed
  over by the end of the call for that chunk, and that no byte is lost between two calls.
\<close>

theorem chunk_invariance:
  assumes "list_all2 (\<lambda>p m. length p < 2 ^ 32 \<and> parse p = Some m) ps ms"
    and "length q < 2 ^ 32" and "k < length (frame q)"
    and "concat chunks = concat (map frame ps) @ take k (frame q)"
  shows "snd (feed parse initial chunks) = map HandleMessage ms
       \<and> unconsumed (fst (feed parse initial chunks)) = take k (frame q)
       \<and> (k = 0 \<longrightarrow> fst (feed parse initial chunks) = initial)"
proof -
  from map_on_payload [OF assms(1)]
  have m: "map (on_payload parse) ps = map HandleMessage ms"
    and b: "\<forall>p \<in> set ps. length p < 2 ^ 32" by simp_all
  from feed_frames [OF b assms(2-4), of parse] m show ?thesis by auto
qed

theorem chunk_invariance_witness:
  "list_all2 (\<lambda>p m. length p < 2 ^ 32 \<and> example_parse p = Some m)
     [[123, 125], [91, 93]] [''{}'', ''[]'']
   \<and> concat [[2, 0], [0, 0, 123, 125, 2], [0, 0, 0, 91], [93, 3, 0, 0], [0, 1]]
       = concat (map frame [[123, 125], [91, 93]]) @ take 5 (frame [1, 2, 3])
   \<and> snd (feed example_parse initial [[2, 0], [0, 0, 123, 125, 2], [0, 0, 0, 91], [93, 3, 0, 0], [0, 1]])
       = [HandleMessage ''{}'', HandleMessage ''[]'']
   \<and> unconsumed (fst (feed example_parse initial
        [[2, 0], [0, 0, 123, 125, 2], [0, 0, 0, 91], [93, 3, 0, 0], [0, 1]])) = [3, 0, 0, 0, 1]"
  using chunk_invariance [of example_parse "[[123, 125], [91, 93]]" "[''{}'', ''[]'']"
      "[1, 2, 3]" 5 "[[2, 0], [0, 0, 123, 125, 2], [0, 0, 0, 91], [93, 3, 0, 0], [0, 1]]"]
  by (simp add: frame_def uint32le_def example_parse_def)

lemma on_data_single_frame:
  assumes "length p < 2 ^ 32"
  shows "on_data parse initial (frame p) = (initial, [on_payload parse p])"
proof -
  have "on_data_loop parse (concat_chunk initial (frame p @ [])) =
          (case on_data_loop parse (concat_chunk initial []) of
             (s', acts) \<Rightarrow> (s', on_payload parse p # acts))"
    using assms by (rule loop_frame)
  then show ?thesis
    by (simp add: on_data_def loop_initial)
qed

text \<open>
  Claim C3 (round trip of the frame codec). Let \<open>m\<close> be a message that \<^verbatim>\<open>JSON.stringify\<close> turns
  into a payload of fewer than \<open>2 ^ 32\<close> bytes and that \<^verbatim>\<open>JSON.parse\<close> gives back from that
  payload. Then \<open>sendMessage\<close> writes the four bytes of the payload's exact length, least
  significant first, followed by the payload, and the assembler, given these bytes, hands
  \<open>m\<close> to \<open>handleMessage\<close> and is back in its first state.
\<close>

theorem frame_round_trip:
  assumes "stringify m = Inr payload" and "length payload < 2 ^ 32"
    and "parse payload = Some m"
  shows "sendMessage stringify m = Inr (frame payload)
       \<and> length (frame payload) = 4 + length payload
       \<and> readUInt32LE (frame payload) = length payload
       \<and> drop 4 (frame payload) = payload
       \<and> on_data parse initial (frame payload) = (initial, [HandleMessage m])"
proof -
  have s: "sendMessage stringify m = Inr (frame payload)"
    using assms(1,2) by (simp add: sendMessage_def writeUInt32LE_def frame_def)
  have r: "readUInt32LE (frame payload) = length payload"
    using readUInt32LE_uint32le [OF assms(2), of payload] by (simp add: frame_def)
  have d: "on_data parse initial (frame payload) = (initial, [HandleMessage m])"
    using on_data_single_frame [OF assms(2), of parse] assms(3) by (simp add: on_payload_def)
  show ?thesis using s r d by (simp add: frame_def)
qed

theorem frame_round_trip_witness:
  "example_stringify ''{}'' = Inr [123, 125] \<and> length [123, 125 :: byte] < 2 ^ 32
   \<and> example_parse [123, 125] = Some ''{}''
   \<and> sendMessage example_stringify ''{}'' = Inr [2, 0, 0, 0, 123, 125]
   \<and> readUInt32LE [2, 0, 0, 0, 123, 125] = 2
   \<and> on_data example_parse initial [2, 0, 0, 0, 123, 125] = (initial, [HandleMessage ''{}''])"
  using frame_round_trip [of example_stringify "''{}''" "[123, 125]" example_parse]
  by (simp add: frame_def uint32le_def example_parse_def example_stringify_def)

text \<open>
  Claim C5 (resynchronization after a payload that is not JSON). Let \<open>bad\<close> be a payload of
  fewer than \<open>2 ^ 32\<close> bytes on which \<^verbatim>\<open>JSON.parse\<close> throws, framed with its exact length, between
  valid frames. Wherever the stream is cut into chunks, the listener hands over the
  messages before it, calls \<open>sendError\<close> with \<^verbatim>\<open>Invalid message format\<close> and the request id
  \<^verbatim>\<open>unknown\<close> in its place, hands over every message after it and ends in its first state. The
  second part says the same for any bytes \<open>rest\<close> after the bad frame: exactly the frame is
  consumed, and \<open>rest\<close> is processed as from the first state. The third part is the failure
  response that this call of \<open>sendError\<close> serializes.
\<close>

theorem decode_error_resynchronizes:
  assumes "length bad < 2 ^ 32" and "parse bad = None"
    and "list_all2 (\<lambda>p m. length p < 2 ^ 32 \<and> parse p = Some m) before before_ms"
    and "list_all2 (\<lambda>p m. length p < 2 ^ 32 \<and> parse p = Some m) after after_ms"
    and "concat chunks = concat (map frame before) @ frame bad @ concat (map frame after)"
  shows "feed parse initial chunks =
           (initial, map HandleMessage before_ms
                     @ SendError ''Invalid message format'' ''unknown''
                     # map HandleMessage after_ms)
       \<and> on_data parse initial (frame bad @ rest) =
           (case on_data parse initial rest of
              (s', acts) \<Rightarrow> (s', SendError ''Invalid message format'' ''unknown'' # acts))
       \<and> sendError stringify ''Invalid message format'' ''unknown'' =
           sendMessage stringify
             \<lparr>success = False, resp_data = None, resp_error = Some ''Invalid message format'',
              resp_requestId = ''unknown''\<rparr>"
proof -
  from map_on_payload [OF assms(3)]
  have m1: "map (on_payload parse) before = map HandleMessage before_ms"
    and b1: "\<forall>p \<in> set before. length p < 2 ^ 32" by simp_all
  from map_on_payload [OF assms(4)]
  have m2: "map (on_payload parse) after = map HandleMessage after_ms"
    and b2: "\<forall>p \<in> set after. length p < 2 ^ 32" by simp_all
  have b: "\<forall>p \<in> set (before @ bad # after). length p < 2 ^ 32"
    using b1 b2 assms(1) by auto
  have c: "concat chunks = concat (map frame (before @ bad # after)) @ take 0 (frame [])"
    using assms(5) by simp
  have "\<exists>s'. feed parse initial chunks = (s', map (on_payload parse) (before @ bad # after))
              \<and> unconsumed s' = take 0 (frame []) \<and> (0 = (0::nat) \<longrightarrow> s' = initial)"
    by (rule feed_frames [OF b _ _ c]) (simp_all add: frame_def)
  then have f: "feed parse initial chunks =
           (initial, map HandleMessage before_ms
                     @ SendError ''Invalid message format'' ''unknown''
                     # map HandleMessage after_ms)"
    using m1 m2 assms(2) by (auto simp: on_payload_def)
  have "on_data parse initial (frame bad @ rest) =
           (case on_data parse initial rest of
              (s', acts) \<Rightarrow> (s', on_payload parse bad # acts))"
    unfolding on_data_def using assms(1) by (rule loop_frame)
  then show ?thesis using f assms(2) by (simp add: on_payload_def sendError_def)
qed

theorem decode_error_resynchronizes_witness:
  "length [123 :: byte] < 2 ^ 32 \<and> example_parse [123] = None
   \<and> feed example_parse initial [[2, 0, 0, 0, 123], [125, 1, 0, 0, 0, 123, 2, 0], [0, 0, 91, 93]] =
       (initial, [HandleMessage ''{}'', SendError ''Invalid message format'' ''unknown'',
                  HandleMessage ''[]''])
   \<and> on_data example_parse initial [1, 0, 0, 0, 123, 2, 0, 0, 0, 91, 93] =
       (initial, [SendError ''Invalid message format'' ''unknown'', HandleMessage ''[]''])"
  using decode_error_resynchronizes [of "[123]" example_parse "[[123, 125]]" "[''{}'']"
      "[[91, 93]]" "[''[]'']" "[[2, 0, 0, 0, 123], [125, 1, 0, 0, 0, 123, 2, 0], [0, 0, 91, 93]]"
      "[2, 0, 0, 0, 91, 93]" example_serialize]
    on_data_single_frame [of "[91, 93]" example_parse]
  by (simp add: frame_def uint32le_def example_parse_def on_payload_def)


section \<open>Properties of the dispatcher\<close>



text \<open>
  On an object whose \<^verbatim>\<open>command\<close> and \<^verbatim>\<open>requestId\<close> are strings, \<open>handleMessage_any\<close> writes what
  \<open>handleMessage\<close> writes for the \<^verbatim>\<open>NativeMessage\<close> with these fields.
\<close>

lemma dispatch_any_typed:
  assumes "map_of props ''command'' = Some (JString c)"
  shows "dispatch_any num h now (JObject props)
         = dispatch h now \<lparr>command = c, data = map_of props ''data'', requestId = r\<rparr>"
  using assms by (simp add: dispatch_any_def dispatch_def member_def unknown_command_def)

lemma handleMessage_any_typed:
  assumes "map_of props ''command'' = Some (JString c)"
    and "map_of props ''requestId'' = Some (JString r)"
  shows "handleMessage (\<lambda>x. stringify (as_reply x)) h now
           \<lparr>command = c, data = map_of props ''data'', requestId = r\<rparr>
         = (case handleMessage_any stringify num h now (JObject props) of
              Inr frames \<Rightarrow> frames
            | Inl e \<Rightarrow> [])"
proof -
  have d: "dispatch_any num h now (JObject props)
         = dispatch h now \<lparr>command = c, data = map_of props ''data'', requestId = r\<rparr>"
    using assms(1) by (rule dispatch_any_typed)
  have m: "member (JObject props) ''requestId'' = Some (JString r)"
    using assms(2) by (simp add: member_def)
  show ?thesis
    unfolding handleMessage_def handleMessage_any_def d m
    by (auto simp: Let_def sendResponse_def sendError_def sendMessage_def as_reply_def
          success_reply_def failure_reply_def
          split: outcome.splits sum.splits)
qed




text \<open>
  Claim C6 as amended. For a \<^verbatim>\<open>getBookmarkDatabases\<close> request the host answers with success
  and the three paths when all three calls of \<^verbatim>\<open>getDatabasePath\<close> are fulfilled. When one of
  them is rejected, the first rejection in the order Chrome, Firefox, Safari becomes the
  one failure response of the whole command.
\<close>

theorem getBookmarkDatabases_response:
  assumes "command message = ''getBookmarkDatabases''"
  shows "(getDatabasePath (chromeExtractor h) = Resolves c
          \<and> getDatabasePath (firefoxExtractor h) = Resolves f
          \<and> getDatabasePath (safariExtractor h) = Resolves s
          \<and> sendResponse stringify
                \<lparr>success = True, resp_data = Some (Databases c f s), resp_error = None,
                 resp_requestId = requestId message\<rparr> = Inr bytes
          \<longrightarrow> handleMessage stringify h now message = [bytes])
       \<and> ((getDatabasePath (chromeExtractor h) = Rejects e
            \<or> getDatabasePath (chromeExtractor h) = Resolves c
                \<and> getDatabasePath (firefoxExtractor h) = Rejects e
            \<or> getDatabasePath (chromeExtractor h) = Resolves c
                \<and> getDatabasePath (firefoxExtractor h) = Resolves f
                \<and> getDatabasePath (safariExtractor h) = Rejects e)
          \<and> sendError stringify (error_message e) (requestId message) = Inr bytes
          \<longrightarrow> handleMessage stringify h now message = [bytes])"
  using assms by (auto simp: handleMessage_def dispatch_def host_getBookmarkDatabases_def)

theorem getBookmarkDatabases_response_witness:
  "handleMessage example_serialize
       (example_host\<lparr>firefoxExtractor :=
          \<lparr>extractBookmarks = Resolves [], getDatabasePath = Resolves None\<rparr>\<rparr>) 5
       \<lparr>command = ''getBookmarkDatabases'', data = None, requestId = ''r4''\<rparr>
     = [[4, 0, 0, 0, 1, 114, 52, 0]]
   \<and> getDatabasePath (chromeExtractor example_host) = Resolves (Some ''/chrome/Bookmarks'')
   \<and> getDatabasePath (firefoxExtractor example_host) = Rejects (ErrorObj ''no'')
   \<and> handleMessage example_serialize example_host 5
       \<lparr>command = ''getBookmarkDatabases'', data = None, requestId = ''r4''\<rparr>
     = [[6, 0, 0, 0, 0, 114, 52, 0, 110, 111]]"
  using getBookmarkDatabases_response [where
      message = "\<lparr>command = ''getBookmarkDatabases'', data = None, requestId = ''r4''\<rparr>"
      and h = "example_host\<lparr>firefoxExtractor :=
          \<lparr>extractBookmarks = Resolves [], getDatabasePath = Resolves None\<rparr>\<rparr>"
      and c = "Some ''/chrome/Bookmarks''" and f = None and s = None
      and stringify = example_serialize and bytes = "[4, 0, 0, 0, 1, 114, 52, 0]"
      and e = "ErrorObj ''no''" and now = 5]
    getBookmarkDatabases_response [where
      message = "\<lparr>command = ''getBookmarkDatabases'', data = None, requestId = ''r4''\<rparr>"
      and h = example_host
      and c = "Some ''/chrome/Bookmarks''" and f = None and s = None
      and stringify = example_serialize and bytes = "[6, 0, 0, 0, 0, 114, 52, 0, 110, 111]"
      and e = "ErrorObj ''no''" and now = 5]
  by (simp add: example_host_def example_serialize_def sendResponse_def
         sendError_def sendMessage_def writeUInt32LE_def uint32le_def error_message_def)

text \<open>
  Claim C6 as stated fails: with Chrome and Safari answering and Firefox failing, the host
  sends a failure response, not a mapping.
\<close>

theorem getBookmarkDatabases_failure_counterexample:
  "getDatabasePath (chromeExtractor example_host) = Resolves (Some ''/chrome/Bookmarks'')
   \<and> getDatabasePath (firefoxExtractor example_host) = Rejects (ErrorObj ''no'')
   \<and> getDatabasePath (safariExtractor example_host) = Resolves None
   \<and> dispatch example_host 5
         \<lparr>command = ''getBookmarkDatabases'', data = None, requestId = ''r4''\<rparr>
       = Rejects (ErrorObj ''no'')
   \<and> handleMessage example_serialize example_host 5
         \<lparr>command = ''getBookmarkDatabases'', data = None, requestId = ''r4''\<rparr>
       = [[6, 0, 0, 0, 0, 114, 52, 0, 110, 111]]
   \<and> sendError example_serialize ''no'' ''r4'' = Inr [6, 0, 0, 0, 0, 114, 52, 0, 110, 111]"
  by (simp add: handleMessage_def dispatch_def host_getBookmarkDatabases_def example_host_def
         example_serialize_def sendError_def sendMessage_def writeUInt32LE_def uint32le_def
         error_message_def)

text \<open>
  Claim C9 as amended. A request \<^verbatim>\<open>extractBookmarks\<close> whose \<^verbatim>\<open>data.browser\<close> is a string that is
  not empty and, in lower case, none of \<^verbatim>\<open>chrome\<close>, \<^verbatim>\<open>firefox\<close> and \<^verbatim>\<open>safari\<close>, is answered by
  exactly one failure response, with the message \<^verbatim>\<open>Unsupported browser: \<close> followed by the
  name as given and with the request id of the request.
\<close>

theorem unsupported_browser_failure:
  assumes "command message = ''extractBookmarks''"
    and "data message = Some (JObject props)"
    and "map_of props ''browser'' = Some (JString name)"
    and "name \<noteq> []"
    and "toLowerCase name \<notin> {''chrome'', ''firefox'', ''safari''}"
    and "sendError stringify (''Unsupported browser: '' @ name) (requestId message) = Inr bytes"
  shows "handleMessage stringify h now message = [bytes]"
  using assms
  by (simp add: handleMessage_def dispatch_def host_extractBookmarks_def data_browser_def
        or_else_def error_message_def)

theorem unsupported_browser_failure_witness:
  "toLowerCase ''unsupported'' \<notin> {''chrome'', ''firefox'', ''safari''}
   \<and> sendError example_serialize ''Unsupported browser: unsupported'' ''r6'' =
       Inr [36, 0, 0, 0, 0, 114, 54,
            0, 85, 110, 115, 117, 112, 112, 111, 114, 116, 101, 100, 32,
            98, 114, 111, 119, 115, 101, 114, 58, 32,
            117, 110, 115, 117, 112, 112, 111, 114, 116, 101, 100]
   \<and> handleMessage example_serialize example_host 5
         \<lparr>command = ''extractBookmarks'',
          data = Some (JObject [(''browser'', JString ''unsupported'')]), requestId = ''r6''\<rparr>
       = [[36, 0, 0, 0, 0, 114, 54,
            0, 85, 110, 115, 117, 112, 112, 111, 114, 116, 101, 100, 32,
            98, 114, 111, 119, 115, 101, 114, 58, 32,
            117, 110, 115, 117, 112, 112, 111, 114, 116, 101, 100]]"
  using unsupported_browser_failure [where
      message = "\<lparr>command = ''extractBookmarks'',
          data = Some (JObject [(''browser'', JString ''unsupported'')]), requestId = ''r6''\<rparr>"
      and props = "[(''browser'', JString ''unsupported'')]" and name = "''unsupported''"
      and stringify = example_serialize
      and bytes = "[36, 0, 0, 0, 0, 114, 54,
            0, 85, 110, 115, 117, 112, 112, 111, 114, 116, 101, 100, 32,
            98, 114, 111, 119, 115, 101, 114, 58, 32,
            117, 110, 115, 117, 112, 112, 111, 114, 116, 101, 100]"
      and h = example_host and now = 5]
  by (simp add: example_serialize_def sendError_def sendMessage_def writeUInt32LE_def
         uint32le_def toLowerCase_def lower_char_def)

text \<open>
  Claim C9 as stated fails for the empty name: it is none of the three names, and the
  request goes to the Chrome extractor and is answered with success.
\<close>

theorem unsupported_browser_counterexample:
  "toLowerCase [] \<notin> {''chrome'', ''firefox'', ''safari''}
   \<and> dispatch example_host 5
         \<lparr>command = ''extractBookmarks'', data = Some (JObject [(''browser'', JString [])]),
          requestId = ''r5''\<rparr>
       = Resolves (Extracted [''https://example.org''])
   \<and> handleMessage example_serialize example_host 5
         \<lparr>command = ''extractBookmarks'', data = Some (JObject [(''browser'', JString [])]),
          requestId = ''r5''\<rparr>
       = [[4, 0, 0, 0, 1, 114, 53, 0]]
   \<and> sendResponse example_serialize
         \<lparr>success = True, resp_data = Some (Extracted [''https://example.org'']),
          resp_error = None, resp_requestId = ''r5''\<rparr>
       = Inr [4, 0, 0, 0, 1, 114, 53, 0]"
  by (simp add: handleMessage_def dispatch_def host_extractBookmarks_def data_browser_def
        or_else_def example_host_def example_serialize_def sendResponse_def sendMessage_def
        writeUInt32LE_def uint32le_def toLowerCase_def lower_char_def)

text \<open>
  Claim C10 (the browser defaults to Chrome). For a request \<^verbatim>\<open>extractBookmarks\<close> whose \<^verbatim>\<open>data\<close>
  is absent, or has no \<^verbatim>\<open>browser\<close>, or has a \<^verbatim>\<open>browser\<close> that is falsy, the host writes what it
  writes for the same request with \<^verbatim>\<open>browser\<close> set to \<^verbatim>\<open>chrome\<close>, and the handler's outcome is
  that of the Chrome extractor.
\<close>

theorem default_browser_is_chrome:
  assumes "command message = ''extractBookmarks''"
    and "data message = None \<or> data_browser (data message) = None
         \<or> (\<exists>v. data_browser (data message) = Some v \<and> \<not> truthy v)"
  shows "handleMessage stringify h now message =
           handleMessage stringify h now
             (message\<lparr>data := Some (JObject [(''browser'', JString ''chrome'')])\<rparr>)
       \<and> dispatch h now message =
           await (extractBookmarks (chromeExtractor h)) (\<lambda>r. Resolves (Extracted r))"
proof -
  let ?m = "message\<lparr>data := Some (JObject [(''browser'', JString ''chrome'')])\<rparr>"
  have l: "toLowerCase ''chrome'' = ''chrome''"
    by (simp add: toLowerCase_def lower_char_def)
  have "or_else (data_browser (data message)) (JString ''chrome'') = JString ''chrome''"
    using assms(2) by (auto simp: or_else_def data_browser_def)
  then have d: "dispatch h now message =
                  await (extractBookmarks (chromeExtractor h)) (\<lambda>r. Resolves (Extracted r))"
    using assms(1) l by (simp add: dispatch_def host_extractBookmarks_def)
  have "or_else (data_browser (data ?m)) (JString ''chrome'') = JString ''chrome''"
    by (simp add: or_else_def data_browser_def)
  then have d': "dispatch h now ?m =
                  await (extractBookmarks (chromeExtractor h)) (\<lambda>r. Resolves (Extracted r))"
    using assms(1) l by (simp add: dispatch_def host_extractBookmarks_def)
  have r: "requestId ?m = requestId message"
    by simp
  have "handleMessage stringify h now message = handleMessage stringify h now ?m"
    unfolding handleMessage_def d d' r ..
  then show ?thesis using d by simp
qed


theorem default_browser_is_chrome_witness:
  "handleMessage example_serialize example_host 5
       \<lparr>command = ''extractBookmarks'', data = None, requestId = ''r7''\<rparr>
     = handleMessage example_serialize example_host 5
         \<lparr>command = ''extractBookmarks'',
          data = Some (JObject [(''browser'', JString ''chrome'')]), requestId = ''r7''\<rparr>
   \<and> data_browser (Some (JObject [(''folder'', JString ''work'')])) = None
   \<and> dispatch example_host 5
         \<lparr>command = ''extractBookmarks'', data = Some (JObject [(''folder'', JString ''work'')]),
          requestId = ''r7''\<rparr>
       = Resolves (Extracted [''https://example.org''])
   \<and> data_browser (Some (JObject [(''browser'', JString [])])) = Some (JString [])
   \<and> \<not> truthy (JString [])
   \<and> dispatch example_host 5
         \<lparr>command = ''extractBookmarks'', data = Some (JObject [(''browser'', JString [])]),
          requestId = ''r7''\<rparr>
       = Resolves (Extracted [''https://example.org''])"
  using default_browser_is_chrome [where
      message = "\<lparr>command = ''extractBookmarks'', data = None, requestId = ''r7''\<rparr>"
      and stringify = example_serialize and h = example_host and now = 5]
    default_browser_is_chrome [where
      message = "\<lparr>command = ''extractBookmarks'',
                 data = Some (JObject [(''folder'', JString ''work'')]), requestId = ''r7''\<rparr>"
      and stringify = example_serialize and h = example_host and now = 5]
    default_browser_is_chrome [where
      message = "\<lparr>command = ''extractBookmarks'',
                 data = Some (JObject [(''browser'', JString [])]), requestId = ''r7''\<rparr>"
      and stringify = example_serialize and h = example_host and now = 5]
  by (simp add: data_browser_def example_host_def)

section \<open>Properties of the client\<close>

lemma settled_settle [simp]:
  "settled p (settle q out s) = settled p s @ (if p = q then [out] else [])"
  by (simp add: settled_def settle_def)

lemma waiting_ids_iff: "rid \<in> set (waiting_ids s) \<longleftrightarrow> (\<exists>p. RequestTimeout rid p \<in> waiting s)"
  by (force simp: waiting_ids_def waiting_def split: callback.splits)

lemma consistent_new: "consistent (new_client cn)"
  by (simp add: consistent_def new_client_def connectToNativeHost_def waiting_def settled_def
        split: connect_result.splits)

lemma consistent_connect: "consistent s \<Longrightarrow> consistent (connectToNativeHost cn s)"
  by (simp add: consistent_def connectToNativeHost_def waiting_def settled_def
        split: connect_result.splits)

lemma consistent_onDisconnect: "consistent s \<Longrightarrow> consistent (onDisconnect s)"
  by (simp add: consistent_def onDisconnect_def setTimeout_def waiting_def settled_def)

lemma consistent_disconnect: "consistent s \<Longrightarrow> consistent (disconnect s)"
  by (simp add: consistent_def disconnect_def waiting_def settled_def split: option.splits)

lemma consistentI:
  assumes "\<And>rid p. messageHandlers s rid = Some p \<Longrightarrow> RequestTimeout rid p \<in> waiting s"
    and "\<And>rid p. messageHandlers s rid = Some p \<Longrightarrow> settled p s = []"
    and "\<And>rid p. RequestTimeout rid p \<in> waiting s \<Longrightarrow> p < callers s"
    and "\<And>rid p. RequestTimeout rid p \<in> waiting s \<Longrightarrow> messageHandlers s rid = None
           \<Longrightarrow> length (settled p s) = 1"
    and "\<And>rid p q. RequestTimeout rid p \<in> waiting s \<Longrightarrow> RequestTimeout rid q \<in> waiting s
           \<Longrightarrow> p = q"
    and "\<And>rid rid' p. RequestTimeout rid p \<in> waiting s \<Longrightarrow> RequestTimeout rid' p \<in> waiting s
           \<Longrightarrow> rid = rid'"
    and "\<And>p. p < callers s \<Longrightarrow> (\<exists>rid. RequestTimeout rid p \<in> waiting s) \<or> length (settled p s) = 1"
    and "\<And>p. callers s \<le> p \<Longrightarrow> settled p s = []"
    and "\<And>p. length (settled p s) \<le> 1"
  shows "consistent s"
  unfolding consistent_def using assms by blast

lemma consistentD:
  assumes "consistent s"
  shows "messageHandlers s rid = Some p \<Longrightarrow> RequestTimeout rid p \<in> waiting s"
    and "messageHandlers s rid = Some p \<Longrightarrow> settled p s = []"
    and "RequestTimeout rid p \<in> waiting s \<Longrightarrow> p < callers s"
    and "RequestTimeout rid p \<in> waiting s \<Longrightarrow> messageHandlers s rid = None
           \<Longrightarrow> length (settled p s) = 1"
    and "RequestTimeout rid p \<in> waiting s \<Longrightarrow> RequestTimeout rid q \<in> waiting s \<Longrightarrow> p = q"
    and "RequestTimeout rid p \<in> waiting s \<Longrightarrow> RequestTimeout rid' p \<in> waiting s \<Longrightarrow> rid = rid'"
    and "p < callers s \<Longrightarrow> (\<exists>rid. RequestTimeout rid p \<in> waiting s) \<or> length (settled p s) = 1"
    and "callers s \<le> p \<Longrightarrow> settled p s = []"
    and "length (settled p s) \<le> 1"
  using assms unfolding consistent_def by blast+

text \<open>Settling the caller of a pending entry and deleting the entry.\<close>

lemma consistent_complete:
  assumes c: "consistent s" and h: "messageHandlers s rid = Some p"
    and m: "messageHandlers s' = (messageHandlers s)(rid := None)"
    and w: "waiting s' \<subseteq> waiting s"
    and w': "waiting s - {RequestTimeout rid p} \<subseteq> waiting s'"
    and n: "callers s' = callers s"
    and o: "\<And>q. settled q s' = settled q s @ (if q = p then [out] else [])"
  shows "consistent s'"
proof (rule consistentI)
  note d = consistentD [OF c]
  have wp: "RequestTimeout rid p \<in> waiting s" and ep: "settled p s = []"
    using d(1,2) h by auto
  fix r q
  { assume a: "messageHandlers s' r = Some q"
    then have r: "r \<noteq> rid" and hq: "messageHandlers s r = Some q"
      using m by (auto split: if_splits)
    have wq: "RequestTimeout r q \<in> waiting s" using d(1) hq .
    have "q \<noteq> p" using d(6) [OF wq, of rid] wp r by auto
    then show "RequestTimeout r q \<in> waiting s'" and "settled q s' = []"
      using wq w' r d(2) [OF hq] o by auto }
  { assume a: "RequestTimeout r q \<in> waiting s'"
    then have wq: "RequestTimeout r q \<in> waiting s" using w by auto
    show "q < callers s'" using d(3) [OF wq] n by simp
    assume b: "messageHandlers s' r = None"
    show "length (settled q s') = 1"
    proof (cases "r = rid")
      case True
      then have "q = p" using d(5) [OF wq, of p] wp by simp
      then show ?thesis using o ep by simp
    next
      case False
      then have "messageHandlers s r = None" using b m by simp
      moreover have "q \<noteq> p" using d(6) [OF wq, of rid] wp False by auto
      ultimately show ?thesis using d(4) [OF wq] o by simp
    qed }
  { fix q' assume "RequestTimeout r q \<in> waiting s'" "RequestTimeout r q' \<in> waiting s'"
    then show "q = q'" using d(5) w by blast }
  { fix r' assume "RequestTimeout r q \<in> waiting s'" "RequestTimeout r' q \<in> waiting s'"
    then show "r = r'" using d(6) w by blast }
  { assume a: "q < callers s'"
    show "(\<exists>rid. RequestTimeout rid q \<in> waiting s') \<or> length (settled q s') = 1"
    proof (cases "q = p")
      case True
      then show ?thesis using o ep by simp
    next
      case False
      from d(7) [of q] a n
      consider r' where "RequestTimeout r' q \<in> waiting s" | "length (settled q s) = 1"
        by auto
      then show ?thesis
      proof cases
        case 1
        then have "RequestTimeout r' q \<in> waiting s'" using w' False by auto
        then show ?thesis by blast
      next
        case 2
        then show ?thesis using o False by simp
      qed
    qed }
  { assume "callers s' \<le> q"
    then have "settled q s = []" and "q \<noteq> p"
      using d(8) [of q] d(3) [OF wp] n by auto
    then show "settled q s' = []" using o by simp }
  show "length (settled q s') \<le> 1"
    using d(9) [of q] o ep by (cases "q = p") auto
qed

lemma response_handler_fields:
  "messageHandlers (response_handler p rid resp s) = (messageHandlers s)(rid := None)"
  "waiting (response_handler p rid resp s) = waiting s"
  "callers (response_handler p rid resp s) = callers s"
  "\<exists>out. \<forall>q. settled q (response_handler p rid resp s) = settled q s @ (if q = p then [out] else [])"
  by (auto simp: response_handler_def Let_def settle_def settled_def waiting_def)

lemma consistent_response:
  assumes "consistent s"
  shows "consistent (handleNativeResponse resp s)"
proof (cases "messageHandlers s (resp_requestId resp)")
  case None
  then show ?thesis using assms by (simp add: handleNativeResponse_def)
next
  case (Some p)
  let ?rid = "resp_requestId resp"
  let ?s = "response_handler p ?rid resp s"
  obtain out where out: "\<And>q. settled q ?s = settled q s @ (if q = p then [out] else [])"
    using response_handler_fields(4) [of p ?rid resp s] by blast
  have "consistent ?s"
    by (rule consistent_complete [OF assms Some _ _ _ _ out])
       (simp_all add: response_handler_fields)
  then show ?thesis using Some by (simp add: handleNativeResponse_def)
qed

text \<open>Taking a timer off the list whose closure would do nothing, or a reconnect timer.\<close>

lemma consistent_drop:
  assumes c: "consistent s"
    and w: "waiting s' \<subseteq> waiting s"
    and w': "\<And>rid p. RequestTimeout rid p \<in> waiting s \<Longrightarrow>
               RequestTimeout rid p \<in> waiting s' \<or> messageHandlers s rid = None"
    and m: "messageHandlers s' = messageHandlers s"
    and n: "callers s' = callers s"
    and o: "\<And>q. settled q s' = settled q s"
  shows "consistent s'"
proof (rule consistentI)
  note d = consistentD [OF c]
  fix r q
  { assume a: "messageHandlers s' r = Some q"
    then have hq: "messageHandlers s r = Some q" using m by simp
    show "RequestTimeout r q \<in> waiting s'" using w' [OF d(1) [OF hq]] hq by auto
    show "settled q s' = []" using d(2) [OF hq] o by simp }
  { assume a: "RequestTimeout r q \<in> waiting s'"
    then have wq: "RequestTimeout r q \<in> waiting s" using w by auto
    show "q < callers s'" using d(3) [OF wq] n by simp
    assume "messageHandlers s' r = None"
    then show "length (settled q s') = 1" using d(4) [OF wq] m o by simp }
  { fix q' assume "RequestTimeout r q \<in> waiting s'" "RequestTimeout r q' \<in> waiting s'"
    then show "q = q'" using d(5) w by blast }
  { fix r' assume "RequestTimeout r q \<in> waiting s'" "RequestTimeout r' q \<in> waiting s'"
    then show "r = r'" using d(6) w by blast }
  { assume a: "q < callers s'"
    from d(7) [of q] a n
    consider r' where "RequestTimeout r' q \<in> waiting s" | "length (settled q s) = 1"
      by auto
    then show "(\<exists>rid. RequestTimeout rid q \<in> waiting s') \<or> length (settled q s') = 1"
    proof cases
      case 1
      from w' [OF 1] d(4) [OF 1] o show ?thesis by auto
    next
      case 2
      then show ?thesis using o by simp
    qed }
  { assume "callers s' \<le> q"
    then show "settled q s' = []" using d(8) [of q] n o by simp }
  show "length (settled q s') \<le> 1"
    using d(9) [of q] o by simp
qed

text \<open>Storing a handler and setting its timer under a request id no timer is waiting for.\<close>

lemma consistent_register:
  assumes c: "consistent s"
    and f: "\<And>q. RequestTimeout rid q \<notin> waiting s"
    and m: "messageHandlers s' = (messageHandlers s)(rid \<mapsto> callers s)"
    and w: "waiting s' = insert (RequestTimeout rid (callers s)) (waiting s)"
    and n: "callers s' = Suc (callers s)"
    and o: "\<And>q. settled q s' = settled q s"
  shows "consistent s'"
proof (rule consistentI)
  note d = consistentD [OF c]
  have e: "settled (callers s) s = []" using d(8) by simp
  have old: "\<And>r q. RequestTimeout r q \<in> waiting s \<Longrightarrow> r \<noteq> rid \<and> q \<noteq> callers s"
    using f d(3) by fastforce
  fix r q
  { assume a: "messageHandlers s' r = Some q"
    show "RequestTimeout r q \<in> waiting s'"
      using a m w d(1) [of r q] by (auto split: if_splits)
    show "settled q s' = []"
      using a m o e d(2) [of r q] by (auto split: if_splits) }
  { assume a: "RequestTimeout r q \<in> waiting s'"
    show "q < callers s'" using a w n d(3) [of r q] by auto
    assume "messageHandlers s' r = None"
    then show "length (settled q s') = 1"
      using a w m o d(4) [of r q] by (auto split: if_splits) }
  { fix q' assume "RequestTimeout r q \<in> waiting s'" "RequestTimeout r q' \<in> waiting s'"
    then show "q = q'" using w d(5) [of r q q'] old by auto }
  { fix r' assume "RequestTimeout r q \<in> waiting s'" "RequestTimeout r' q \<in> waiting s'"
    then show "r = r'" using w d(6) [of r q r'] old by auto }
  { assume a: "q < callers s'"
    show "(\<exists>rid. RequestTimeout rid q \<in> waiting s') \<or> length (settled q s') = 1"
    proof (cases "q = callers s")
      case True
      then show ?thesis using w by auto
    next
      case False
      then have "q < callers s" using a n by simp
      from d(7) [OF this] show ?thesis using w o by auto
    qed }
  { assume "callers s' \<le> q"
    then show "settled q s' = []" using d(8) [of q] n o by simp }
  show "length (settled q s') \<le> 1"
    using d(9) [of q] o by simp
qed

text \<open>A call that is rejected before anything is stored.\<close>

lemma consistent_refuse:
  assumes c: "consistent s"
  shows "consistent (settle (callers s) out (s\<lparr>callers := Suc (callers s)\<rparr>))"
proof (rule consistentI)
  let ?s = "settle (callers s) out (s\<lparr>callers := Suc (callers s)\<rparr>)"
  note d = consistentD [OF c]
  have m: "messageHandlers ?s = messageHandlers s" and w: "waiting ?s = waiting s"
    and n: "callers ?s = Suc (callers s)"
    and o: "\<And>q. settled q ?s = settled q s @ (if q = callers s then [out] else [])"
    by (simp_all add: settle_def waiting_def settled_def)
  have e: "settled (callers s) s = []" using d(8) by simp
  have old: "\<And>r q. RequestTimeout r q \<in> waiting s \<Longrightarrow> q \<noteq> callers s"
    using d(3) by fastforce
  fix r q
  { assume a: "messageHandlers ?s r = Some q"
    then have hq: "messageHandlers s r = Some q" using m by simp
    show "RequestTimeout r q \<in> waiting ?s" using d(1) [OF hq] w by simp
    show "settled q ?s = []" using d(2) [OF hq] old [OF d(1) [OF hq]] o by simp }
  { assume a: "RequestTimeout r q \<in> waiting ?s"
    then have wq: "RequestTimeout r q \<in> waiting s" using w by simp
    show "q < callers ?s" using d(3) [OF wq] n by simp
    assume "messageHandlers ?s r = None"
    then show "length (settled q ?s) = 1" using d(4) [OF wq] old [OF wq] m o by simp }
  { fix q' assume "RequestTimeout r q \<in> waiting ?s" "RequestTimeout r q' \<in> waiting ?s"
    then show "q = q'" using d(5) w by auto }
  { fix r' assume "RequestTimeout r q \<in> waiting ?s" "RequestTimeout r' q \<in> waiting ?s"
    then show "r = r'" using d(6) w by auto }
  { assume a: "q < callers ?s"
    show "(\<exists>rid. RequestTimeout rid q \<in> waiting ?s) \<or> length (settled q ?s) = 1"
    proof (cases "q = callers s")
      case True
      then show ?thesis using o e by simp
    next
      case False
      then have "q < callers s" using a n by simp
      from d(7) [OF this] show ?thesis using w o False by auto
    qed }
  { assume "callers ?s \<le> q"
    then show "settled q ?s = []" using d(8) [of q] n o by simp }
  show "length (settled q ?s) \<le> 1"
    using d(9) [of q] o e by (cases "q = callers s") auto
qed

lemma consistent_send:
  assumes c: "consistent s"
    and f: "port s = None \<or> generateRequestId now random \<notin> set (waiting_ids s)"
  shows "consistent (client_sendMessage cmd dat now random post s)"
proof (cases "port s")
  case None
  then show ?thesis
    using consistent_refuse [OF c] by (simp add: client_sendMessage_def Let_def)
next
  case (Some pt)
  let ?rid = "generateRequestId now random"
  let ?s2 = "setTimeout (RequestTimeout ?rid (callers s)) NATIVE_MESSAGE_TIMEOUT
               (s\<lparr>callers := Suc (callers s),
                  messageHandlers := (messageHandlers s)(?rid \<mapsto> callers s)\<rparr>)"
  have fr: "\<And>q. RequestTimeout ?rid q \<notin> waiting s"
    using f Some by (auto simp: waiting_ids_iff)
  have c2: "consistent ?s2"
    by (rule consistent_register [OF c fr])
       (simp_all add: setTimeout_def waiting_def settled_def)
  show ?thesis
  proof (cases post)
    case None
    have "consistent (?s2\<lparr>posted := posted ?s2 @ [\<lparr>command = cmd, data = dat, requestId = ?rid\<rparr>]\<rparr>)"
      by (rule consistent_drop [OF c2]) (simp_all add: waiting_def settled_def)
    then show ?thesis
      using Some None by (simp add: client_sendMessage_def Let_def)
  next
    case (Some e)
    have "consistent (settle (callers s) (Rejected e)
                        (?s2\<lparr>messageHandlers := (messageHandlers ?s2)(?rid := None)\<rparr>))"
      by (rule consistent_complete [OF c2, where rid = ?rid and p = "callers s"
              and out = "Rejected e"])
         (auto simp: setTimeout_def waiting_def settled_def settle_def)
    then show ?thesis
      using \<open>port s = Some pt\<close> Some by (simp add: client_sendMessage_def Let_def)
  qed
qed

lemma earliest_mem: "earliest xs = Some x \<Longrightarrow> x \<in> set xs"
  by (induction xs arbitrary: x) (auto split: option.splits if_splits)

lemma earliest_None: "earliest xs = None \<longleftrightarrow> xs = []"
  by (induction xs) (auto split: option.splits)

lemma waiting_remove1:
  "callback ` set (remove1 tm xs) \<subseteq> callback ` set xs"
  "cb \<in> callback ` set xs \<Longrightarrow> cb \<noteq> callback tm \<Longrightarrow> cb \<in> callback ` set (remove1 tm xs)"
proof -
  show "callback ` set (remove1 tm xs) \<subseteq> callback ` set xs"
    using set_remove1_subset [of tm xs] by blast
  assume "cb \<in> callback ` set xs" "cb \<noteq> callback tm"
  then obtain x where "x \<in> set xs" "callback x = cb" "x \<noteq> tm" by auto
  then show "cb \<in> callback ` set (remove1 tm xs)" by force
qed

text \<open>One turn of the event loop: a waiting timer is taken off the list and its closure runs.\<close>

lemma consistent_fire:
  assumes c: "consistent s" and t: "tm \<in> set (timers s)"
  shows "consistent (run_callback cn (callback tm)
                       (s\<lparr>timers := remove1 tm (timers s), clock := k\<rparr>))"
proof -
  let ?s1 = "s\<lparr>timers := remove1 tm (timers s), clock := k\<rparr>"
  note d = consistentD [OF c]
  have w: "waiting ?s1 \<subseteq> waiting s"
    using waiting_remove1(1) [of tm "timers s"] by (simp add: waiting_def)
  have w': "\<And>cb. cb \<in> waiting s \<Longrightarrow> cb \<noteq> callback tm \<Longrightarrow> cb \<in> waiting ?s1"
    using waiting_remove1(2) [of _ "timers s" tm] by (simp add: waiting_def)
  have tw: "callback tm \<in> waiting s" using t by (simp add: waiting_def)
  show ?thesis
  proof (cases "callback tm")
    case Reconnect
    have "consistent ?s1"
      by (rule consistent_drop [OF c w]) (use w' Reconnect in \<open>auto simp: settled_def\<close>)
    then show ?thesis using Reconnect by (simp add: run_callback_def consistent_connect)
  next
    case (RequestTimeout rid p)
    show ?thesis
    proof (cases "messageHandlers s rid")
      case None
      have "\<And>r q. RequestTimeout r q \<in> waiting s \<Longrightarrow>
                RequestTimeout r q \<in> waiting ?s1 \<or> messageHandlers s r = None"
      proof -
        fix r q
        assume a: "RequestTimeout r q \<in> waiting s"
        show "RequestTimeout r q \<in> waiting ?s1 \<or> messageHandlers s r = None"
        proof (cases "RequestTimeout r q = callback tm")
          case True
          then show ?thesis using RequestTimeout None by simp
        next
          case False
          then show ?thesis using w' [OF a] by simp
        qed
      qed
      then have "consistent ?s1"
        by (rule consistent_drop [OF c w]) (simp_all add: settled_def)
      then show ?thesis
        using RequestTimeout None by (simp add: run_callback_def request_timeout_def)
    next
      case (Some q)
      have "q = p" using d(5) [OF d(1) [OF Some], of p] tw RequestTimeout by simp
      with Some have h: "messageHandlers s rid = Some p" by simp
      let ?s2 = "settle p (Rejected (ErrorObj ''Native messaging timeout''))
                   (?s1\<lparr>messageHandlers := (messageHandlers ?s1)(rid := None)\<rparr>)"
      have "consistent ?s2"
        by (rule consistent_complete [OF c h, where
                out = "Rejected (ErrorObj ''Native messaging timeout'')"])
           (use w w' RequestTimeout in \<open>auto simp: settle_def settled_def waiting_def\<close>)
      then show ?thesis
        using RequestTimeout h by (simp add: run_callback_def request_timeout_def)
    qed
  qed
qed

lemma consistent_fire_due: "consistent s \<Longrightarrow> consistent (fire_due cn t s)"
proof (induction cn t s rule: fire_due.induct)
  case (1 cn t s)
  show ?case
  proof (cases "earliest (filter (\<lambda>tm. due tm \<le> t) (timers s))")
    case None
    have "consistent (s\<lparr>clock := max (clock s) t\<rparr>)"
      by (rule consistent_drop [OF "1.prems"]) (simp_all add: waiting_def settled_def)
    then show ?thesis using None by (subst fire_due.simps) simp
  next
    case (Some tm)
    then have "tm \<in> set (timers s)" using earliest_mem by fastforce
    from consistent_fire [OF "1.prems" this]
    have "consistent (run_callback cn (callback tm)
             (s\<lparr>timers := remove1 tm (timers s), clock := max (clock s) (due tm)\<rparr>))" .
    from "1.IH" [OF Some this] show ?thesis
      using Some by (subst fire_due.simps) simp
  qed
qed

lemma consistent_step:
  assumes "consistent s"
    and "case ev of
           SendMessage cmd dat now random post \<Rightarrow>
             port s = None \<or> generateRequestId now random \<notin> set (waiting_ids s)
         | _ \<Rightarrow> True"
  shows "consistent (step cn ev s)"
  using assms
  by (cases ev)
     (simp_all add: consistent_send consistent_response consistent_onDisconnect
        consistent_disconnect consistent_fire_due)

lemma consistent_run:
  "consistent s \<Longrightarrow> fresh_ids cn s evs \<Longrightarrow> consistent (run cn s evs)"
proof (induction evs arbitrary: s)
  case Nil
  then show ?case by simp
next
  case (Cons ev evs)
  from Cons.prems have "consistent (step cn ev s)"
    by (intro consistent_step) simp_all
  with Cons show ?case by simp
qed


lemmas client_simps =
  example_connect_def new_client_def connectToNativeHost_def client_sendMessage_def
  generateRequestId_def setTimeout_def NATIVE_MESSAGE_TIMEOUT_def decimal.simps fire_due.simps
  run_callback_def request_timeout_def settle_def handleNativeResponse_def response_handler_def
  onDisconnect_def disconnect_def waiting_ids_def settled_def Let_def

lemma run_callback_timers [simp]:
  "timers (run_callback cn cb s) = timers s" "clock (run_callback cn cb s) = clock s"
  by (simp_all add: run_callback_def request_timeout_def connectToNativeHost_def settle_def
        split: callback.splits connect_result.splits)

lemma fire_due_timely:
  assumes "\<forall>tm \<in> set (timers s). c < due tm" and "clock s \<le> max c t"
  shows "(\<forall>tm \<in> set (timers (fire_due cn t s)). max c t < due tm)
       \<and> clock (fire_due cn t s) \<le> max c t"
  using assms
proof (induction cn t s rule: fire_due.induct)
  case (1 cn t s)
  show ?case
  proof (cases "earliest (filter (\<lambda>tm. due tm \<le> t) (timers s))")
    case None
    then have "filter (\<lambda>tm. due tm \<le> t) (timers s) = []"
      by (simp add: earliest_None)
    then have "\<forall>tm \<in> set (timers s). t < due tm"
      by (auto simp: filter_empty_conv)
    then show ?thesis
      using None "1.prems" by (subst (1 2) fire_due.simps) auto
  next
    case (Some tm)
    then have m: "tm \<in> set (filter (\<lambda>tm. due tm \<le> t) (timers s))"
      by (rule earliest_mem)
    let ?s = "run_callback cn (callback tm)
                (s\<lparr>timers := remove1 tm (timers s), clock := max (clock s) (due tm)\<rparr>)"
    have a: "\<forall>x \<in> set (timers ?s). c < due x"
      using "1.prems"(1) set_remove1_subset [of tm "timers s"] by auto
    have b: "clock ?s \<le> max c t"
      using "1.prems"(2) m by auto
    from "1.IH" [OF Some a b] show ?thesis
      using Some by (subst (1 2) fire_due.simps) simp
  qed
qed

lemma timely_step: "timely s \<Longrightarrow> timely (step cn ev s)"
proof (cases ev)
  case (Elapse dt)
  assume "timely s"
  then have "\<forall>tm \<in> set (timers s). clock s < due tm" by (simp add: timely_def)
  from fire_due_timely [OF this, of "clock s + dt" cn]
  show ?thesis using Elapse by (auto simp: timely_def)
qed (auto simp: timely_def client_sendMessage_def Let_def setTimeout_def settle_def
       NATIVE_MESSAGE_TIMEOUT_def handleNativeResponse_def response_handler_def
       onDisconnect_def disconnect_def split: option.splits)

lemma timely_run: "timely s \<Longrightarrow> timely (run cn s evs)"
  by (induction evs arbitrary: s) (simp_all add: timely_step)

lemma timely_new: "timely (new_client cn)"
  by (simp add: timely_def new_client_def connectToNativeHost_def split: connect_result.splits)

lemma fire_due_shrinks:
  "set (timers (fire_due cn t s)) \<subseteq> set (timers s)
   \<and> clock s \<le> clock (fire_due cn t s)
   \<and> callers (fire_due cn t s) = callers s"
proof (induction cn t s rule: fire_due.induct)
  case (1 cn t s)
  show ?case
  proof (cases "earliest (filter (\<lambda>tm. due tm \<le> t) (timers s))")
    case None
    then show ?thesis by (subst (1 2 3) fire_due.simps) simp
  next
    case (Some tm)
    let ?s = "run_callback cn (callback tm)
             (s\<lparr>timers := remove1 tm (timers s), clock := max (clock s) (due tm)\<rparr>)"
    have "callers ?s = callers s"
      by (simp add: run_callback_def request_timeout_def settle_def connectToNativeHost_def
            split: callback.splits connect_result.splits)
    moreover have "set (timers ?s) \<subseteq> set (timers s)"
      using set_remove1_subset [of tm "timers s"] by simp
    moreover have "clock s \<le> clock ?s" by simp
    ultimately show ?thesis
      using "1.IH" [OF Some] Some by (subst (1 2 3) fire_due.simps) auto
  qed
qed

lemma prompt_step: "prompt s \<Longrightarrow> prompt (step cn ev s)"
proof (cases ev)
  case (Elapse dt)
  assume "prompt s"
  then show ?thesis
    using Elapse fire_due_shrinks [of cn "clock s + dt" s]
    unfolding prompt_def by fastforce
qed (auto simp: prompt_def client_sendMessage_def Let_def setTimeout_def settle_def
       NATIVE_MESSAGE_TIMEOUT_def handleNativeResponse_def response_handler_def
       onDisconnect_def disconnect_def split: option.splits)

lemma prompt_run: "prompt s \<Longrightarrow> prompt (run cn s evs)"
  by (induction evs arbitrary: s) (simp_all add: prompt_step)

lemma prompt_new: "prompt (new_client cn)"
  by (simp add: prompt_def new_client_def connectToNativeHost_def split: connect_result.splits)

lemma all_fired:
  assumes "timely s" and "prompt s" and "NATIVE_MESSAGE_TIMEOUT \<le> dt"
  shows "timers (fire_due cn (clock s + dt) s) = []"
proof -
  have "\<forall>tm \<in> set (timers s). clock s < due tm"
    using assms(1) by (simp add: timely_def)
  from fire_due_timely [OF this, of "clock s + dt" cn]
  have a: "\<forall>tm \<in> set (timers (fire_due cn (clock s + dt) s)). clock s + dt < due tm"
    by simp
  have b: "\<forall>tm \<in> set (timers (fire_due cn (clock s + dt) s)).
             due tm \<le> clock s + NATIVE_MESSAGE_TIMEOUT"
    using assms(2) fire_due_shrinks [of cn "clock s + dt" s] unfolding prompt_def by blast
  have "tm \<notin> set (timers (fire_due cn (clock s + dt) s))" for tm
  proof
    assume "tm \<in> set (timers (fire_due cn (clock s + dt) s))"
    then have "clock s + dt < due tm" and "due tm \<le> clock s + NATIVE_MESSAGE_TIMEOUT"
      using a b by blast+
    then show False using assms(3) by simp
  qed
  then show ?thesis by (cases "timers (fire_due cn (clock s + dt) s)") auto
qed

lemma settled_after_timeout:
  assumes "consistent s" and "timely s" and "prompt s" and "NATIVE_MESSAGE_TIMEOUT \<le> dt"
    and "caller < callers s"
  shows "length (settled caller (step cn (Elapse dt) s)) = 1"
proof -
  let ?s = "fire_due cn (clock s + dt) s"
  have c: "consistent ?s" using assms(1) by (rule consistent_fire_due)
  have "timers ?s = []" using assms(2-4) by (rule all_fired)
  then have "waiting ?s = {}" by (simp add: waiting_def)
  moreover have "caller < callers ?s"
    using assms(5) fire_due_shrinks [of cn "clock s + dt" s] by simp
  ultimately show ?thesis
    using consistentD(7) [OF c, of caller] by simp
qed

lemma tracked_caller: "consistent s \<Longrightarrow> tracked rid p d s \<Longrightarrow> p < callers s"
proof -
  assume c: "consistent s" and t: "tracked rid p d s"
  note cd = consistentD [OF c]
  from t show ?thesis unfolding tracked_def
  proof
    assume "\<lparr>due = d, callback = RequestTimeout rid p\<rparr> \<in> set (timers s)
             \<and> messageHandlers s rid = Some p \<and> settled p s = []"
    then show ?thesis using cd(1,3) by blast
  next
    assume "messageHandlers s rid \<noteq> Some p
             \<and> settled p s = [Rejected (ErrorObj ''Native messaging timeout'')]"
    then show ?thesis using cd(8) [of p] by (cases "p < callers s") auto
  qed
qed

text \<open>The closure of another request, or a response to another request, leaves the tracked one alone.\<close>

lemma tracked_other:
  assumes c: "consistent s" and t: "tracked rid p d s"
    and h: "messageHandlers s r = Some q" and r: "r \<noteq> rid \<or> settled p s \<noteq> []"
    and m: "messageHandlers s' = (messageHandlers s)(r := None)"
    and tm: "\<lparr>due = d, callback = RequestTimeout rid p\<rparr> \<in> set (timers s)
             \<Longrightarrow> r \<noteq> rid \<Longrightarrow> \<lparr>due = d, callback = RequestTimeout rid p\<rparr> \<in> set (timers s')"
    and o: "\<And>x. settled x s' = settled x s @ (if x = q then [out] else [])"
  shows "tracked rid p d s'"
proof -
  note cd = consistentD [OF c]
  have wq: "RequestTimeout r q \<in> waiting s" and eq: "settled q s = []"
    using cd(1,2) h by auto
  from t show ?thesis unfolding tracked_def
  proof
    assume a: "\<lparr>due = d, callback = RequestTimeout rid p\<rparr> \<in> set (timers s)
             \<and> messageHandlers s rid = Some p \<and> settled p s = []"
    then have rr: "r \<noteq> rid" using r by simp
    have "RequestTimeout rid p \<in> waiting s" using a by (force simp: waiting_def)
    then have "q \<noteq> p" using cd(6) [OF wq, of rid] rr by auto
    then show "\<lparr>due = d, callback = RequestTimeout rid p\<rparr> \<in> set (timers s')
             \<and> messageHandlers s' rid = Some p \<and> settled p s' = []
          \<or> messageHandlers s' rid \<noteq> Some p
             \<and> settled p s' = [Rejected (ErrorObj ''Native messaging timeout'')]"
      using a rr m o tm by simp
  next
    assume a: "messageHandlers s rid \<noteq> Some p
             \<and> settled p s = [Rejected (ErrorObj ''Native messaging timeout'')]"
    then have "q \<noteq> p" using eq by auto
    then show "\<lparr>due = d, callback = RequestTimeout rid p\<rparr> \<in> set (timers s')
             \<and> messageHandlers s' rid = Some p \<and> settled p s' = []
          \<or> messageHandlers s' rid \<noteq> Some p
             \<and> settled p s' = [Rejected (ErrorObj ''Native messaging timeout'')]"
      using a m o by auto
  qed
qed

text \<open>A step that touches neither the handlers nor the settlements.\<close>

lemma tracked_same:
  assumes t: "tracked rid p d s"
    and m: "messageHandlers s' = messageHandlers s"
    and tm: "\<lparr>due = d, callback = RequestTimeout rid p\<rparr> \<in> set (timers s)
             \<Longrightarrow> messageHandlers s rid = Some p
             \<Longrightarrow> \<lparr>due = d, callback = RequestTimeout rid p\<rparr> \<in> set (timers s')"
    and o: "settled p s' = settled p s"
  shows "tracked rid p d s'"
  using assms unfolding tracked_def by auto

lemma tracked_fire:
  assumes c: "consistent s" and t: "tracked rid p d s" and i: "tm \<in> set (timers s)"
  shows "tracked rid p d (run_callback cn (callback tm)
                            (s\<lparr>timers := remove1 tm (timers s), clock := k\<rparr>))"
proof -
  let ?s1 = "s\<lparr>timers := remove1 tm (timers s), clock := k\<rparr>"
  let ?ours = "\<lparr>due = d, callback = RequestTimeout rid p\<rparr>"
  note cd = consistentD [OF c]
  have tw: "callback tm \<in> waiting s" using i by (simp add: waiting_def)
  show ?thesis
  proof (cases "callback tm")
    case Reconnect
    then have "tm \<noteq> ?ours" by auto
    then have "tracked rid p d ?s1"
      by (intro tracked_same [OF t]) (simp_all add: settled_def)
    then have "tracked rid p d (connectToNativeHost cn ?s1)"
      by (rule tracked_same)
         (simp_all add: connectToNativeHost_def settled_def split: connect_result.splits)
    then show ?thesis using Reconnect by (simp add: run_callback_def)
  next
    case (RequestTimeout r q)
    show ?thesis
    proof (cases "messageHandlers s r")
      case None
      have "tracked rid p d ?s1"
      proof (rule tracked_same [OF t])
        assume "messageHandlers s rid = Some p"
        then have "tm \<noteq> ?ours" using None RequestTimeout by auto
        moreover assume "?ours \<in> set (timers s)"
        ultimately show "?ours \<in> set (timers ?s1)" by simp
      qed (simp_all add: settled_def)
      then show ?thesis
        using RequestTimeout None by (simp add: run_callback_def request_timeout_def)
    next
      case (Some q')
      have "q' = q" using cd(5) [OF cd(1) [OF Some], of q] tw RequestTimeout by simp
      with Some have h: "messageHandlers s r = Some q" by simp
      let ?out = "Rejected (ErrorObj ''Native messaging timeout'') :: 'a settlement"
      let ?s2 = "settle q ?out (?s1\<lparr>messageHandlers := (messageHandlers ?s1)(r := None)\<rparr>)"
      have "tracked rid p d ?s2"
      proof (cases "r = rid \<and> settled p s = []")
        case True
        then have "messageHandlers s rid = Some p"
          using t unfolding tracked_def by auto
        then have "q = p" using h True by simp
        then show ?thesis
          using True by (simp add: tracked_def settle_def settled_def)
      next
        case False
        show ?thesis
        proof (rule tracked_other [OF c t h, where out = ?out])
          show "r \<noteq> rid \<or> settled p s \<noteq> []" using False by blast
          show "messageHandlers ?s2 = (messageHandlers s)(r := None)"
            by (simp add: settle_def)
          show "?ours \<in> set (timers ?s2)" if "?ours \<in> set (timers s)" and "r \<noteq> rid"
          proof -
            have "tm \<noteq> ?ours" using RequestTimeout that(2) by auto
            then show ?thesis using that(1) by (simp add: settle_def)
          qed
          show "\<And>x. settled x ?s2 = settled x s @ (if x = q then [?out] else [])"
            by (simp add: settled_def settle_def)
        qed
      qed
      then show ?thesis
        using RequestTimeout h by (simp add: run_callback_def request_timeout_def)
    qed
  qed
qed

lemma tracked_fire_due:
  "consistent s \<Longrightarrow> tracked rid p d s \<Longrightarrow> tracked rid p d (fire_due cn t s)"
proof (induction cn t s rule: fire_due.induct)
  case (1 cn t s)
  show ?case
  proof (cases "earliest (filter (\<lambda>tm. due tm \<le> t) (timers s))")
    case None
    have "tracked rid p d (s\<lparr>clock := max (clock s) t\<rparr>)"
      by (rule tracked_same [OF "1.prems"(2)]) (simp_all add: settled_def)
    then show ?thesis using None by (subst fire_due.simps) simp
  next
    case (Some tm)
    then have i: "tm \<in> set (timers s)" using earliest_mem by fastforce
    let ?s = "run_callback cn (callback tm)
             (s\<lparr>timers := remove1 tm (timers s), clock := max (clock s) (due tm)\<rparr>)"
    have "consistent ?s" using consistent_fire [OF "1.prems"(1) i] .
    moreover have "tracked rid p d ?s" using tracked_fire [OF "1.prems" i] .
    ultimately have "tracked rid p d (fire_due cn t ?s)" by (rule "1.IH" [OF Some])
    then show ?thesis
      using Some by (subst fire_due.simps) simp
  qed
qed

lemma tracked_send:
  assumes c: "consistent s" and t: "tracked rid p d s"
    and f: "port s = None \<or> generateRequestId now random \<notin> set (waiting_ids s)"
  shows "tracked rid p d (client_sendMessage cmd dat now random post s)"
proof -
  have p: "p \<noteq> callers s" using tracked_caller [OF c t] by simp
  show ?thesis
  proof (cases "port s")
    case None
    have "tracked rid p d (settle (callers s)
            (Rejected (ErrorObj ''Native messaging host not connected''))
            (s\<lparr>callers := Suc (callers s)\<rparr>))"
      by (rule tracked_same [OF t]) (use p in \<open>simp_all add: settle_def settled_def\<close>)
    then show ?thesis using None by (simp add: client_sendMessage_def Let_def)
  next
    case (Some pt)
    let ?rid = "generateRequestId now random"
    have fr: "\<lparr>due = d, callback = RequestTimeout rid p\<rparr> \<in> set (timers s) \<Longrightarrow> ?rid \<noteq> rid"
    proof
      assume "\<lparr>due = d, callback = RequestTimeout rid p\<rparr> \<in> set (timers s)"
      then have "RequestTimeout rid p \<in> waiting s" by (force simp: waiting_def)
      then have "rid \<in> set (waiting_ids s)" by (auto simp: waiting_ids_iff)
      moreover assume "?rid = rid"
      ultimately show False using f Some by simp
    qed
    from t show ?thesis
      unfolding tracked_def
      using p fr Some
      by (cases post)
         (auto simp: client_sendMessage_def Let_def setTimeout_def settle_def settled_def)
  qed
qed

lemma tracked_response:
  assumes c: "consistent s" and t: "tracked rid p d s" and r: "resp_requestId resp \<noteq> rid"
  shows "tracked rid p d (handleNativeResponse resp s)"
proof (cases "messageHandlers s (resp_requestId resp)")
  case None
  then show ?thesis using t by (simp add: handleNativeResponse_def)
next
  case (Some q)
  let ?s = "response_handler q (resp_requestId resp) resp s"
  obtain out where out: "\<And>x. settled x ?s = settled x s @ (if x = q then [out] else [])"
    using response_handler_fields(4) [of q "resp_requestId resp" resp s] by blast
  have "tracked rid p d ?s"
  proof (rule tracked_other [OF c t Some _ _ _ out])
    show "resp_requestId resp \<noteq> rid \<or> settled p s \<noteq> []" using r by simp
    show "messageHandlers ?s = (messageHandlers s)(resp_requestId resp := None)"
      by (simp add: response_handler_fields)
    show "\<lparr>due = d, callback = RequestTimeout rid p\<rparr> \<in> set (timers ?s)"
      if "\<lparr>due = d, callback = RequestTimeout rid p\<rparr> \<in> set (timers s)"
      using that by (simp add: response_handler_def Let_def settle_def)
  qed
  then show ?thesis using Some by (simp add: handleNativeResponse_def)
qed

lemma tracked_step:
  assumes "consistent s" and "tracked rid p d s"
    and "case ev of
           SendMessage cmd dat now random post \<Rightarrow>
             port s = None \<or> generateRequestId now random \<notin> set (waiting_ids s)
         | _ \<Rightarrow> True"
    and "\<And>resp. ev = OnMessage resp \<Longrightarrow> resp_requestId resp \<noteq> rid"
  shows "tracked rid p d (step cn ev s)"
proof (cases ev)
  case (SendMessage cmd dat now random post)
  then show ?thesis using assms by (simp add: tracked_send)
next
  case (OnMessage resp)
  then show ?thesis using assms by (simp add: tracked_response)
next
  case PortDisconnected
  have "tracked rid p d (onDisconnect s)"
    by (rule tracked_same [OF assms(2)]) (simp_all add: onDisconnect_def setTimeout_def settled_def)
  then show ?thesis using PortDisconnected by simp
next
  case Disconnect
  have "tracked rid p d (disconnect s)"
    by (rule tracked_same [OF assms(2)]) (simp_all add: disconnect_def settled_def split: option.splits)
  then show ?thesis using Disconnect by simp
next
  case (Elapse dt)
  then show ?thesis using assms by (simp add: tracked_fire_due)
qed

text \<open>What a pending request of a run with fresh ids meets.\<close>

lemma pending_timer:
  assumes c: "consistent s" and h: "messageHandlers s rid = Some p"
  shows "\<exists>d. tracked rid p d s"
proof -
  have "RequestTimeout rid p \<in> waiting s" using consistentD(1) [OF c h] .
  then obtain tm where tm: "tm \<in> set (timers s)" and cb: "callback tm = RequestTimeout rid p"
    unfolding waiting_def by auto
  have "tm = \<lparr>due = due tm, callback = RequestTimeout rid p\<rparr>" using cb by simp
  then have "\<lparr>due = due tm, callback = RequestTimeout rid p\<rparr> \<in> set (timers s)"
    using tm by simp
  then have "tracked rid p (due tm) s"
    using h consistentD(2) [OF c h] unfolding tracked_def by blast
  then show ?thesis ..
qed

lemma settled_kept:
  assumes c: "consistent s" and h: "messageHandlers s rid = Some p"
    and e: "\<And>dt. ev \<noteq> Elapse dt"
    and r: "\<And>resp. ev = OnMessage resp \<Longrightarrow> resp_requestId resp \<noteq> rid"
  shows "settled p (step cn ev s) = []"
proof -
  note cd = consistentD [OF c]
  have w: "RequestTimeout rid p \<in> waiting s" using cd(1) [OF h] .
  have e0: "settled p s = []" using cd(2) [OF h] .
  have pc: "p < callers s" using cd(3) [OF w] .
  show ?thesis
  proof (cases ev)
    case (SendMessage cmd dat now random post)
    have "settled p (client_sendMessage cmd dat now random post s) = settled p s"
      using pc by (cases "port s"; cases post)
        (simp_all add: client_sendMessage_def Let_def setTimeout_def settle_def settled_def)
    then show ?thesis using SendMessage e0 by simp
  next
    case (OnMessage resp)
    show ?thesis
    proof (cases "messageHandlers s (resp_requestId resp)")
      case None
      then show ?thesis using OnMessage e0 by (simp add: handleNativeResponse_def)
    next
      case (Some q)
      have "RequestTimeout (resp_requestId resp) q \<in> waiting s" using cd(1) [OF Some] .
      then have "q \<noteq> p" using cd(6) [OF w, of "resp_requestId resp"] r [OF OnMessage] by auto
      then have "settled p (handleNativeResponse resp s) = settled p s"
        using Some
        by (simp add: handleNativeResponse_def response_handler_def Let_def settle_def settled_def)
      then show ?thesis using OnMessage e0 by simp
    qed
  next
    case PortDisconnected
    then show ?thesis using e0 by (simp add: onDisconnect_def setTimeout_def settled_def)
  next
    case Disconnect
    then show ?thesis using e0 by (simp add: disconnect_def settled_def split: option.splits)
  next
    case (Elapse dt)
    then show ?thesis using e by simp
  qed
qed

lemma pending_step:
  assumes c: "consistent s" and h: "messageHandlers s rid = Some p"
    and f: "fresh_ids cn s [ev]"
  shows "settled p (step cn ev s) = [] \<and> messageHandlers (step cn ev s) rid = Some p
       \<or> (\<exists>response. ev = OnMessage response \<and> resp_requestId response = rid)
       \<or> (\<exists>dt. ev = Elapse dt
            \<and> settled p (step cn ev s) = [Rejected (ErrorObj ''Native messaging timeout'')]
            \<and> messageHandlers (step cn ev s) rid \<noteq> Some p)"
proof (cases "\<exists>response. ev = OnMessage response \<and> resp_requestId response = rid")
  case True
  then show ?thesis by blast
next
  case False
  obtain d where t: "tracked rid p d s" using pending_timer [OF c h] by blast
  have f': "case ev of
           SendMessage cmd dat now random post \<Rightarrow>
             port s = None \<or> generateRequestId now random \<notin> set (waiting_ids s)
         | _ \<Rightarrow> True"
    using f by simp
  have ts: "tracked rid p d (step cn ev s)"
    using c t f' by (rule tracked_step) (use False in blast)
  show ?thesis
  proof (cases "\<exists>dt. ev = Elapse dt")
    case True
    then show ?thesis using ts unfolding tracked_def by blast
  next
    case F2: False
    have "settled p (step cn ev s) = []"
      using c h by (rule settled_kept) (use False F2 in blast)+
    then show ?thesis using ts unfolding tracked_def by auto
  qed
qed

lemma pending_timeout:
  assumes c: "consistent s" and h: "messageHandlers s rid = Some p"
  shows "settled p (request_timeout rid p s) = [Rejected (ErrorObj ''Native messaging timeout'')]
       \<and> messageHandlers (request_timeout rid p s) rid = None
       \<and> (\<forall>response :: 'a NativeResponse. resp_requestId response = rid
            \<longrightarrow> handleNativeResponse response (request_timeout rid p s)
                = request_timeout rid p s)"
  using h consistentD(2) [OF c h]
  by (simp add: request_timeout_def handleNativeResponse_def settle_def settled_def)

lemma pending_response:
  assumes c: "consistent s" and h: "messageHandlers s (resp_requestId response) = Some p"
  shows "settled p (handleNativeResponse response s)
         = [if success response then Resolved (resp_data response)
            else Rejected (ErrorObj (case resp_error response of
                                       None \<Rightarrow> ''Native messaging error''
                                     | Some e \<Rightarrow> if e = [] then ''Native messaging error'' else e))]
       \<and> messageHandlers (handleNativeResponse response s) (resp_requestId response) = None
       \<and> request_timeout (resp_requestId response) p (handleNativeResponse response s)
           = handleNativeResponse response s"
  using h consistentD(2) [OF c h]
  by (simp add: request_timeout_def handleNativeResponse_def response_handler_def Let_def
        settle_def settled_def)

lemma refused_send:
  assumes c: "consistent s" and pt: "port s \<noteq> None"
  shows "settled (callers s) (client_sendMessage cmd dat now random (Some e) s) = [Rejected e]
       \<and> messageHandlers (client_sendMessage cmd dat now random (Some e) s)
           (generateRequestId now random) = None"
proof -
  have "settled (callers s) s = []" using consistentD(8) [OF c] by simp
  then show ?thesis
    using pt by (auto simp: client_sendMessage_def Let_def setTimeout_def settle_def settled_def)
qed

text \<open>
  Claim C2 as amended. Take any run of a new client in which every request id that
  \<open>generateRequestId\<close> returns differs from the ids of the earlier requests whose timeout timer
  has not fired yet. A request is pending while its handler is stored in \<open>messageHandlers\<close>.
  Then, at the end of the run: the promise of every caller has been settled at most once,
  and exactly once when no timeout closure of that caller is waiting any more; a request that
  is pending has not been settled and its timeout closure is waiting; a response whose
  request id has no handler leaves the whole state as it is, settling nobody and touching
  no entry; a response whose request id has a handler settles that caller, for the first
  time, with the data or the error of the response, and removes the entry, after which the
  timeout closure of the request does nothing; the timeout closure of a pending request
  rejects its caller with \<^verbatim>\<open>Native messaging timeout\<close> and removes the entry, after which a
  response with that id does nothing; whatever happens next, a pending request stays
  pending and unsettled unless a response with its id arrives or time passes and its caller
  is rejected with the timeout error; a call of \<^verbatim>\<open>sendMessage\<close> for which \<^verbatim>\<open>postMessage\<close> throws
  rejects its caller with what was thrown and leaves no entry; and once
  \<open>NATIVE_MESSAGE_TIMEOUT\<close> more milliseconds have passed, every caller so far has been settled
  exactly once.
\<close>

theorem exactly_once_completion:
  assumes "fresh_ids connectNative (new_client connectNative) (events :: 'd event list)"
  shows "(\<forall>caller < callers (run connectNative (new_client connectNative) events).
            length (settled caller (run connectNative (new_client connectNative) events)) \<le> 1
          \<and> ((\<forall>rid. RequestTimeout rid caller
                       \<notin> callback ` set (timers (run connectNative (new_client connectNative) events)))
               \<longrightarrow> length (settled caller (run connectNative (new_client connectNative) events)) = 1))
       \<and> (\<forall>rid caller.
            messageHandlers (run connectNative (new_client connectNative) events) rid = Some caller
            \<longrightarrow> settled caller (run connectNative (new_client connectNative) events) = []
              \<and> RequestTimeout rid caller
                  \<in> callback ` set (timers (run connectNative (new_client connectNative) events)))
       \<and> (\<forall>response.
            messageHandlers (run connectNative (new_client connectNative) events)
              (resp_requestId response) = None
            \<longrightarrow> handleNativeResponse response (run connectNative (new_client connectNative) events)
                = (run connectNative (new_client connectNative) events))
       \<and> (\<forall>response caller.
            messageHandlers (run connectNative (new_client connectNative) events)
              (resp_requestId response) = Some caller
            \<longrightarrow> length (settled caller
                  (handleNativeResponse response
                     (run connectNative (new_client connectNative) events))) = 1
              \<and> settled caller
                  (handleNativeResponse response
                     (run connectNative (new_client connectNative) events))
                = [if success response then Resolved (resp_data response)
                   else Rejected (ErrorObj
                          (case resp_error response of
                             None \<Rightarrow> ''Native messaging error''
                           | Some e \<Rightarrow> if e = [] then ''Native messaging error'' else e))]
              \<and> messageHandlers
                  (handleNativeResponse response
                     (run connectNative (new_client connectNative) events))
                  (resp_requestId response) = None
              \<and> request_timeout (resp_requestId response) caller
                  (handleNativeResponse response
                     (run connectNative (new_client connectNative) events))
                = handleNativeResponse response
                    (run connectNative (new_client connectNative) events))
       \<and> (\<forall>rid caller.
            messageHandlers (run connectNative (new_client connectNative) events) rid = Some caller
            \<longrightarrow> settled caller
                  (request_timeout rid caller
                     (run connectNative (new_client connectNative) events))
                = [Rejected (ErrorObj ''Native messaging timeout'')]
              \<and> messageHandlers
                  (request_timeout rid caller
                     (run connectNative (new_client connectNative) events)) rid = None
              \<and> (\<forall>response :: 'd NativeResponse. resp_requestId response = rid
                   \<longrightarrow> handleNativeResponse response
                         (request_timeout rid caller
                            (run connectNative (new_client connectNative) events))
                       = request_timeout rid caller
                           (run connectNative (new_client connectNative) events)))
       \<and> (\<forall>rid caller ev.
            messageHandlers (run connectNative (new_client connectNative) events) rid = Some caller
            \<and> fresh_ids connectNative (run connectNative (new_client connectNative) events) [ev]
            \<longrightarrow> settled caller (step connectNative ev (run connectNative (new_client connectNative) events)) = []
                \<and> messageHandlers (step connectNative ev (run connectNative (new_client connectNative) events)) rid = Some caller
              \<or> (\<exists>response. ev = OnMessage response \<and> resp_requestId response = rid)
              \<or> (\<exists>dt. ev = Elapse dt
                   \<and> settled caller (step connectNative ev (run connectNative (new_client connectNative) events))
                     = [Rejected (ErrorObj ''Native messaging timeout'')]
                   \<and> messageHandlers (step connectNative ev (run connectNative (new_client connectNative) events)) rid \<noteq> Some caller))
       \<and> (\<forall>cmd dat now random e.
            port (run connectNative (new_client connectNative) events) \<noteq> None
            \<longrightarrow> settled (callers (run connectNative (new_client connectNative) events))
                  (client_sendMessage cmd dat now random (Some e) (run connectNative (new_client connectNative) events))
                = [Rejected e]
              \<and> messageHandlers
                  (client_sendMessage cmd dat now random (Some e) (run connectNative (new_client connectNative) events))
                  (generateRequestId now random) = None)
       \<and> (\<forall>dt \<ge> NATIVE_MESSAGE_TIMEOUT.
            \<forall>caller < callers (run connectNative (new_client connectNative) events).
              length (settled caller
                (step connectNative (Elapse dt)
                   (run connectNative (new_client connectNative) events))) = 1)"
proof -
  let ?s = "run connectNative (new_client connectNative) events"
  have cs: "consistent ?s"
    using consistent_new assms by (rule consistent_run)
  have ts: "timely ?s" using timely_new by (rule timely_run)
  have ps: "prompt ?s" using prompt_new by (rule prompt_run)
  note d = consistentD [OF cs]
  have a: "\<forall>caller < callers ?s. length (settled caller ?s) \<le> 1
          \<and> ((\<forall>rid. RequestTimeout rid caller \<notin> callback ` set (timers ?s))
               \<longrightarrow> length (settled caller ?s) = 1)"
    using d(7,9) unfolding waiting_def by blast
  have b: "\<forall>rid caller. messageHandlers ?s rid = Some caller
            \<longrightarrow> settled caller ?s = [] \<and> RequestTimeout rid caller \<in> callback ` set (timers ?s)"
    using d(1,2) unfolding waiting_def by blast
  have c: "\<forall>response. messageHandlers ?s (resp_requestId response) = None
            \<longrightarrow> handleNativeResponse response ?s = ?s"
    by (simp add: handleNativeResponse_def)
  have e: "\<forall>response caller. messageHandlers ?s (resp_requestId response) = Some caller
            \<longrightarrow> length (settled caller (handleNativeResponse response ?s)) = 1
              \<and> settled caller (handleNativeResponse response ?s)
                = [if success response then Resolved (resp_data response)
                   else Rejected (ErrorObj
                          (case resp_error response of
                             None \<Rightarrow> ''Native messaging error''
                           | Some e \<Rightarrow> if e = [] then ''Native messaging error'' else e))]
              \<and> messageHandlers (handleNativeResponse response ?s) (resp_requestId response) = None
              \<and> request_timeout (resp_requestId response) caller (handleNativeResponse response ?s)
                = handleNativeResponse response ?s"
  proof (intro allI impI)
    fix response :: "'d NativeResponse" and caller
    assume h: "messageHandlers ?s (resp_requestId response) = Some caller"
    from pending_response [OF cs h]
    show "length (settled caller (handleNativeResponse response ?s)) = 1
              \<and> settled caller (handleNativeResponse response ?s)
                = [if success response then Resolved (resp_data response)
                   else Rejected (ErrorObj
                          (case resp_error response of
                             None \<Rightarrow> ''Native messaging error''
                           | Some e \<Rightarrow> if e = [] then ''Native messaging error'' else e))]
              \<and> messageHandlers (handleNativeResponse response ?s) (resp_requestId response) = None
              \<and> request_timeout (resp_requestId response) caller (handleNativeResponse response ?s)
                = handleNativeResponse response ?s"
      by simp
  qed
  have g: "\<forall>rid caller. messageHandlers ?s rid = Some caller
            \<longrightarrow> settled caller (request_timeout rid caller ?s)
                = [Rejected (ErrorObj ''Native messaging timeout'')]
              \<and> messageHandlers (request_timeout rid caller ?s) rid = None
              \<and> (\<forall>response :: 'd NativeResponse. resp_requestId response = rid
                   \<longrightarrow> handleNativeResponse response (request_timeout rid caller ?s)
                       = request_timeout rid caller ?s)"
    using pending_timeout [OF cs] by blast
  have h: "\<forall>rid caller ev.
            messageHandlers ?s rid = Some caller \<and> fresh_ids connectNative ?s [ev]
            \<longrightarrow> settled caller (step connectNative ev ?s) = []
                \<and> messageHandlers (step connectNative ev ?s) rid = Some caller
              \<or> (\<exists>response. ev = OnMessage response \<and> resp_requestId response = rid)
              \<or> (\<exists>dt. ev = Elapse dt
                   \<and> settled caller (step connectNative ev ?s)
                     = [Rejected (ErrorObj ''Native messaging timeout'')]
                   \<and> messageHandlers (step connectNative ev ?s) rid \<noteq> Some caller)"
    using pending_step [OF cs] by blast
  have i: "\<forall>cmd dat now random e. port ?s \<noteq> None
            \<longrightarrow> settled (callers ?s) (client_sendMessage cmd dat now random (Some e) ?s)
                = [Rejected e]
              \<and> messageHandlers (client_sendMessage cmd dat now random (Some e) ?s)
                  (generateRequestId now random) = None"
    using refused_send [OF cs] by blast
  have f: "\<forall>dt \<ge> NATIVE_MESSAGE_TIMEOUT. \<forall>caller < callers ?s.
             length (settled caller (step connectNative (Elapse dt) ?s)) = 1"
    using settled_after_timeout [OF cs ts ps] by blast
  show ?thesis
    apply (intro conjI)
           apply (rule a)
          apply (rule b)
         apply (rule c)
        apply (rule e)
       apply (rule g)
      apply (rule h)
     apply (rule i)
    apply (rule f)
    done
qed

lemma decimal_7: "decimal 7 = ''7''"
  by (simp add: decimal.simps)

theorem exactly_once_completion_witness:
  "fresh_ids example_connect (new_client example_connect) example_events
   \<and> callers (run example_connect (new_client example_connect) example_events) = 2
   \<and> timers (run example_connect (new_client example_connect) example_events) = []
   \<and> length (settled 0 (run example_connect (new_client example_connect) example_events)) = 1
   \<and> length (settled 1 (run example_connect (new_client example_connect) example_events)) = 1
   \<and> settlements (run example_connect (new_client example_connect) example_events)
       = [(1, Resolved (Some ''alive'')), (0, Rejected (ErrorObj ''Native messaging timeout''))]
   \<and> length (settled 0 (step example_connect (Elapse 10000)
         (run example_connect (new_client example_connect) (take 3 example_events)))) = 1
   \<and> messageHandlers (run example_connect (new_client example_connect) (take 3 example_events))
        ''req_7_abd'' = Some 1
   \<and> settled 1 (run example_connect (new_client example_connect) (take 4 example_events))
       = [Resolved (Some ''alive'')]
   \<and> messageHandlers (run example_connect (new_client example_connect) (take 3 example_events))
        ''req_7_abc'' = Some 0
   \<and> settled 0 (request_timeout ''req_7_abc'' 0
         (run example_connect (new_client example_connect) (take 3 example_events)))
       = [Rejected (ErrorObj ''Native messaging timeout'')]
   \<and> port (run example_connect (new_client example_connect) (take 3 example_events)) = Some 0
   \<and> settled 2 (client_sendMessage ''ping'' None 7 ''0.xyz'' (Some OtherValue)
         (run example_connect (new_client example_connect) (take 3 example_events)))
       = [Rejected OtherValue]"
  using exactly_once_completion [of example_connect example_events]
    exactly_once_completion [of example_connect "take 3 example_events"]
  by (simp add: example_events_def client_simps decimal_7 del: decimal.simps)

text \<open>
  Claim C2 as stated fails when a request id comes back while the timer of an earlier
  request with that id is waiting. Here the first request is answered, the second gets the
  same id, and the timer of the first removes the entry of the second: the second caller is
  never settled, neither by a response nor by its own timer, which finds no entry. It also
  fails for a request whose \<^verbatim>\<open>postMessage\<close> throws: its caller is rejected at once with what
  was thrown, before any response and before its timeout, and the timer that fires ten
  seconds later finds no entry.
\<close>

theorem exactly_once_completion_counterexample:
  "generateRequestId 7 ''0.4fzyo82mvyr'' = ''req_7_4fzyo82mv''
   \<and> generateRequestId 7 ''0.4fzyo82mvq1'' = ''req_7_4fzyo82mv''
   \<and> messageHandlers (run example_connect (new_client example_connect) (take 3 reusing_events))
        ''req_7_4fzyo82mv'' = Some 1
   \<and> callers (run example_connect (new_client example_connect) reusing_events) = 2
   \<and> settled 1 (run example_connect (new_client example_connect) reusing_events) = []
   \<and> timers (run example_connect (new_client example_connect) reusing_events) = []
   \<and> messageHandlers (run example_connect (new_client example_connect) reusing_events)
        ''req_7_4fzyo82mv'' = None
   \<and> settled 0 (run example_connect (new_client example_connect) reusing_events)
       = [Resolved (Some ''alive''), Rejected (ErrorObj ''Native messaging timeout'')]
   \<and> port (new_client example_connect :: string client) = Some 0
   \<and> settlements (run example_connect (new_client example_connect) (take 1 throwing_events))
       = [(0, Rejected (ErrorObj ''Attempting to use a disconnected port object''))]
   \<and> clock (run example_connect (new_client example_connect) (take 1 throwing_events)) = 0
   \<and> messageHandlers (run example_connect (new_client example_connect) (take 1 throwing_events))
        ''req_7_abc'' = None
   \<and> settlements (run example_connect (new_client example_connect) throwing_events)
       = [(0, Rejected (ErrorObj ''Attempting to use a disconnected port object''))]"
  by (simp add: reusing_events_def throwing_events_def client_simps)










































end
